theory Spec2Isabelle
  imports Main "HOL-Library.Sublist" "HOL-Library.Word"
begin

section \<open>JavaScript values shared by both source files\<close>

text \<open>
  Text is modelled as \<^typ>\<open>string\<close>. A thrown value is either an \<open>Error\<close> object, given by
  its \<open>name\<close> and \<open>message\<close>, or a thrown primitive, given by the text \<open>String(v)\<close> yields.
\<close>

datatype js_error = JsError string string | JsThrown string

text \<open>\<open>String(error)\<close>: \<open>Error.prototype.toString\<close> for an error object.\<close>

fun error_string :: "js_error \<Rightarrow> string" where
  "error_string (JsError n m) = (if n = [] then m else if m = [] then n else n @ '': '' @ m)"
| "error_string (JsThrown s) = s"

text \<open>The expression \<open>error?.message || String(error)\<close> used by every catch block.\<close>

fun error_text :: "js_error \<Rightarrow> string" where
  "error_text (JsError n m) = (if m \<noteq> [] then m else error_string (JsError n m))"
| "error_text (JsThrown s) = s"

text \<open>
  JSON values as \<open>JSON.parse\<close> yields them; numbers are restricted to integers.
  \<open>undefined\<close> is \<open>None\<close> of \<^typ>\<open>'a option\<close> wherever a value may be absent.
\<close>

datatype json =
    JNull
  | JBool bool
  | JNum int
  | JStr string
  | JArr "json list"
  | JObj "(string \<times> json) list"

text \<open>Decimal digits of a number, as a template literal or \<open>JSON.stringify\<close> prints it.\<close>

fun show_nat :: "nat \<Rightarrow> string" where
  "show_nat n =
     (if n < 10 then [char_of (48 + n)] else show_nat (n div 10) @ [char_of (48 + n mod 10)])"

declare show_nat.simps [simp del]

definition show_int :: "int \<Rightarrow> string" where
  "show_int i = (if i < 0 then ''-'' @ show_nat (nat (- i)) else show_nat (nat i))"

text \<open>\<open>JSON.stringify\<close> on strings (QuoteJSONString) and on the values above.\<close>

definition hex_digit :: "nat \<Rightarrow> char" where
  "hex_digit n = (if n < 10 then char_of (48 + n) else char_of (87 + n))"

definition quote_char :: "char \<Rightarrow> string" where
  "quote_char c =
     (if c = CHR 0x22 then [CHR 0x5C, CHR 0x22]
      else if c = CHR 0x5C then [CHR 0x5C, CHR 0x5C]
      else if c = CHR 0x08 then [CHR 0x5C, CHR ''b'']
      else if c = CHR 0x0C then [CHR 0x5C, CHR ''f'']
      else if c = CHR 0x0A then [CHR 0x5C, CHR ''n'']
      else if c = CHR 0x0D then [CHR 0x5C, CHR ''r'']
      else if c = CHR 0x09 then [CHR 0x5C, CHR ''t'']
      else if (of_char c :: nat) < 32
        then [CHR 0x5C, CHR ''u'', CHR ''0'', CHR ''0'',
              hex_digit (of_char c div 16), hex_digit (of_char c mod 16)]
      else [c])"

definition quote_string :: "string \<Rightarrow> string" where
  "quote_string s = [CHR 0x22] @ concat (map quote_char s) @ [CHR 0x22]"

fun join_comma :: "string list \<Rightarrow> string" where
  "join_comma [] = []"
| "join_comma [x] = x"
| "join_comma (x # y # ys) = x @ '','' @ join_comma (y # ys)"

fun json_stringify :: "json \<Rightarrow> string"
  and stringify_items :: "json list \<Rightarrow> string list"
  and stringify_members :: "(string \<times> json) list \<Rightarrow> string list" where
  "json_stringify JNull = ''null''"
| "json_stringify (JBool b) = (if b then ''true'' else ''false'')"
| "json_stringify (JNum i) = show_int i"
| "json_stringify (JStr s) = quote_string s"
| "json_stringify (JArr xs) = ''['' @ join_comma (stringify_items xs) @ '']''"
| "json_stringify (JObj fs) = ''{'' @ join_comma (stringify_members fs) @ ''}''"
| "stringify_items [] = []"
| "stringify_items (x # xs) = json_stringify x # stringify_items xs"
| "stringify_members [] = []"
| "stringify_members ((k, v) # fs) =
     (quote_string k @ '':'' @ json_stringify v) # stringify_members fs"

section \<open>bridge.ts: the orchestration loop\<close>

subsection \<open>Data\<close>

text \<open>A requested tool call \<open>{id, function: {name, arguments}}\<close>; the arguments are JSON text.\<close>

record tool_call =
  tc_id :: string
  tc_name :: string
  tc_arguments :: string

text \<open>The model client's reply \<open>{content, isToolCall, toolCalls?}\<close>.\<close>

record llm_response =
  content :: string
  isToolCall :: bool
  toolCalls :: "tool_call list option"

text \<open>
  An entry of \<open>toolResponses\<close>; \<open>tr_output\<close> is its field \<open>output\<close>, \<open>None\<close> when
  \<open>JSON.stringify\<close> yields \<open>undefined\<close>.
\<close>

record tool_response =
  tool_call_id :: string
  tr_output :: "string option"

datatype chat_message = ToolMsg tool_response | SystemMsg string

text \<open>What \<open>await Promise.race([mcpClient.callTool(..), timeoutPromise])\<close> ends with.\<close>

datatype race_outcome = Returned "json option" | Threw js_error | TimedOut

text \<open>
  The calls one turn makes to its collaborators, in order. \<open>Dispatch\<close> is one call of
  \<open>handleToolCalls\<close> (one tool-dispatch round).
\<close>

datatype event =
    LLMPrompt string
  | LLMInvoke "chat_message list"
  | Dispatch "tool_call list"

text \<open>
  The bridge object as \<open>processMessage\<close> sees it. The collaborators (\<open>llm-client\<close>,
  \<open>tool-registry\<close>, the tool peers behind \<open>callTool\<close>) are not part of the source
  files; each is a function of an abstract world \<open>'w\<close> that may return or throw.
  \<open>toolToMcp\<close> holds the own properties of the object of that name.
\<close>

record ('w, 'c) bridge =
  toolToMcp :: "string \<rightharpoonup> 'c"
  detectToolFromPrompt :: "'w \<Rightarrow> string \<Rightarrow> (js_error + string option) \<times> 'w"
  getToolInstructions :: "'w \<Rightarrow> string \<Rightarrow> (js_error + string option) \<times> 'w"
  setSystemPrompt :: "'w \<Rightarrow> string \<Rightarrow> 'w"
  invokeWithPrompt :: "'w \<Rightarrow> string \<Rightarrow> (js_error + llm_response) \<times> 'w"
  invoke :: "'w \<Rightarrow> chat_message list \<Rightarrow> (js_error + llm_response) \<times> 'w"
  json_parse :: "string \<Rightarrow> js_error + json"
  callTool :: "'w \<Rightarrow> 'c \<Rightarrow> string \<Rightarrow> json \<Rightarrow> race_outcome \<times> 'w"

definition maxIterations :: nat where
  "maxIterations = 3"

subsection \<open>handleToolCalls\<close>

text \<open>
  \<open>toolToMcp\<close> is a plain object created by \<open>{}\<close>: reading a key it does not own falls
  through to \<open>Object.prototype\<close>, whose properties are all truthy.
\<close>

definition object_prototype_props :: "string list" where
  "object_prototype_props =
     [''constructor'', ''__defineGetter__'', ''__defineSetter__'', ''hasOwnProperty'',
      ''__lookupGetter__'', ''__lookupSetter__'', ''isPrototypeOf'',
      ''propertyIsEnumerable'', ''toString'', ''valueOf'', ''__proto__'',
      ''toLocaleString'']"

text \<open>\<open>typeof result === "string" ? result : JSON.stringify(result)\<close>.\<close>

fun output_of :: "json option \<Rightarrow> string option" where
  "output_of None = None"
| "output_of (Some (JStr s)) = Some s"
| "output_of (Some j) = Some (json_stringify j)"

text \<open>The body of the \<open>try\<close> block for one tool call: the output, or what was thrown.\<close>

definition call_one ::
  "('w, 'c) bridge \<Rightarrow> tool_call \<Rightarrow> 'w \<Rightarrow> (js_error + string option) \<times> 'w" where
  "call_one br toolCall w =
     (let requestedName = tc_name toolCall in
      case toolToMcp br requestedName of
        None \<Rightarrow>
          if requestedName \<in> set object_prototype_props then
            (case json_parse br (tc_arguments toolCall) of
               Inl e \<Rightarrow> (Inl e, w)
             | Inr toolArgs \<Rightarrow>
                 (Inl (JsError ''TypeError'' ''mcpClient.callTool is not a function''), w))
          else (Inl (JsError ''Error'' (''No MCP found for tool: '' @ requestedName)), w)
      | Some mcpClient \<Rightarrow>
          (case json_parse br (tc_arguments toolCall) of
             Inl e \<Rightarrow> (Inl e, w)
           | Inr toolArgs \<Rightarrow>
               (case callTool br w mcpClient requestedName toolArgs of
                  (Returned result, w') \<Rightarrow> (Inr (output_of result), w')
                | (Threw e, w') \<Rightarrow> (Inl e, w')
                | (TimedOut, w') \<Rightarrow>
                    (Inl (JsError ''Error'' ''MCP call timed out after 30 seconds''), w'))))"

text \<open>The \<open>try\<close>/\<open>catch\<close> around it: the entry pushed for this call.\<close>

definition tool_entry ::
  "('w, 'c) bridge \<Rightarrow> tool_call \<Rightarrow> 'w \<Rightarrow> tool_response \<times> 'w" where
  "tool_entry br toolCall w =
     (case call_one br toolCall w of
        (Inr out, w') \<Rightarrow> (\<lparr>tool_call_id = tc_id toolCall, tr_output = out\<rparr>, w')
      | (Inl e, w') \<Rightarrow>
          (\<lparr>tool_call_id = tc_id toolCall, tr_output = Some (''Error: '' @ error_text e)\<rparr>, w'))"

text \<open>The \<open>for\<close> loop, with \<open>toolResponses\<close> as its accumulator.\<close>

fun handle_loop ::
  "('w, 'c) bridge \<Rightarrow> tool_call list \<Rightarrow> tool_response list \<Rightarrow> 'w \<Rightarrow>
   tool_response list \<times> 'w" where
  "handle_loop br [] toolResponses w = (toolResponses, w)"
| "handle_loop br (toolCall # rest) toolResponses w =
     (case tool_entry br toolCall w of
        (entry, w') \<Rightarrow> handle_loop br rest (toolResponses @ [entry]) w')"

definition handleToolCalls ::
  "('w, 'c) bridge \<Rightarrow> tool_call list \<Rightarrow> 'w \<Rightarrow> tool_response list \<times> 'w" where
  "handleToolCalls br calls w = handle_loop br calls [] w"

subsection \<open>processMessage\<close>

text \<open>\<open>response.isToolCall && response.toolCalls?.length\<close>.\<close>

definition requests_tools :: "llm_response \<Rightarrow> bool" where
  "requests_tools response =
     (isToolCall response \<and> (case toolCalls response of None \<Rightarrow> False | Some tcs \<Rightarrow> tcs \<noteq> []))"

definition calls_of :: "llm_response \<Rightarrow> tool_call list" where
  "calls_of response = (case toolCalls response of None \<Rightarrow> [] | Some tcs \<Rightarrow> tcs)"

text \<open>\<open>JSON.stringify(response.toolCalls.map(tc => ({name: .., args: ..})))\<close>.\<close>

definition call_signature :: "tool_call list \<Rightarrow> string" where
  "call_signature tcs =
     json_stringify
       (JArr (map (\<lambda>tc. JObj [(''name'', JStr (tc_name tc)), (''args'', JStr (tc_arguments tc))])
          tcs))"

text \<open>A template literal prints an \<open>undefined\<close> output as the text \<open>undefined\<close>.\<close>

definition output_text :: "tool_response \<Rightarrow> string" where
  "output_text result = (case tr_output result of None \<Rightarrow> ''undefined'' | Some s \<Rightarrow> s)"

text \<open>The \<open>forEach\<close> that appends \<open>Result ${index + 1}: ${result.output}\n\n\<close>.\<close>

fun result_lines :: "nat \<Rightarrow> tool_response list \<Rightarrow> string" where
  "result_lines index [] = []"
| "result_lines index (result # rest) =
     ''Result '' @ show_nat (index + 1) @ '': '' @ output_text result @ [CHR 0x0A, CHR 0x0A]
       @ result_lines (index + 1) rest"

definition compiledResults :: "tool_response list \<Rightarrow> string" where
  "compiledResults allToolResults =
     (if length allToolResults > 0
      then ''Here are the search results I've found:'' @ [CHR 0x0A, CHR 0x0A]
             @ result_lines 0 allToolResults
      else [])"

definition finalPrompt :: "string \<Rightarrow> tool_response list \<Rightarrow> string" where
  "finalPrompt message allToolResults =
     message @ [CHR 0x0A, CHR 0x0A] @ compiledResults allToolResults @ [CHR 0x0A, CHR 0x0A]
       @ ''Based on these search results, please provide a comprehensive answer. Do not make another search request.''"

definition last_opportunity :: string where
  "last_opportunity =
     ''This is your last opportunity to use tools. After processing these results, please provide a final answer to the user's question without requesting additional tool calls.''"

text \<open>
  The two identical blocks that force a final answer: one model call with the final
  prompt, whose \<open>content\<close> is returned.
\<close>

definition force_final ::
  "('w, 'c) bridge \<Rightarrow> string \<Rightarrow> tool_response list \<Rightarrow> 'w \<Rightarrow>
   (js_error + string) \<times> 'w \<times> event list" where
  "force_final br message allToolResults w =
     (case invokeWithPrompt br w (finalPrompt message allToolResults) of
        (Inl e, w') \<Rightarrow> (Inl e, w', [LLMPrompt (finalPrompt message allToolResults)])
      | (Inr finalResponse, w') \<Rightarrow>
          (Inr (content finalResponse), w', [LLMPrompt (finalPrompt message allToolResults)]))"

text \<open>
  What is sent back to the model after a round: the tool responses, followed on the
  last allowed iteration (\<open>iterationCount >= maxIterations - 1\<close>, after the increment)
  by the system instruction.
\<close>

definition round_messages :: "nat \<Rightarrow> tool_response list \<Rightarrow> chat_message list" where
  "round_messages iterationCount toolResponses =
     (if iterationCount \<ge> maxIterations - 1
      then map ToolMsg toolResponses @ [SystemMsg last_opportunity]
      else map ToolMsg toolResponses)"

text \<open>
  The \<open>while\<close> loop together with the \<open>if\<close> and the \<open>return\<close> that follow it, from the
  state \<open>(iterationCount, seenToolCalls, allToolResults, response)\<close>. The result is what
  the \<open>try\<close> block returns or throws, the world, and the events from here on.
\<close>

function tool_loop ::
  "('w, 'c) bridge \<Rightarrow> string \<Rightarrow> nat \<Rightarrow> string set \<Rightarrow> tool_response list \<Rightarrow>
   llm_response \<Rightarrow> 'w \<Rightarrow> (js_error + string) \<times> 'w \<times> event list" where
  "tool_loop br message iterationCount seenToolCalls allToolResults response w =
     (if requests_tools response \<and> iterationCount < maxIterations then
        (if call_signature (calls_of response) \<in> seenToolCalls
         then force_final br message allToolResults w
         else
           (case handleToolCalls br (calls_of response) w of
              (toolResponses, w1) \<Rightarrow>
                (case invoke br w1 (round_messages (iterationCount + 1) toolResponses) of
                   (Inl e, w2) \<Rightarrow>
                     (Inl e, w2,
                      [Dispatch (calls_of response),
                       LLMInvoke (round_messages (iterationCount + 1) toolResponses)])
                 | (Inr response', w2) \<Rightarrow>
                     (case tool_loop br message (iterationCount + 1)
                             (insert (call_signature (calls_of response)) seenToolCalls)
                             (allToolResults @ toolResponses) response' w2 of
                        (res, w3, evs) \<Rightarrow>
                          (res, w3,
                           Dispatch (calls_of response)
                             # LLMInvoke (round_messages (iterationCount + 1) toolResponses)
                             # evs)))))
      else if requests_tools response then force_final br message allToolResults w
      else (Inr (content response), w, []))"
  by pat_completeness auto
termination
  by (relation "measure (\<lambda>(br, message, iterationCount, rest). maxIterations - iterationCount)")
     auto

declare tool_loop.simps [simp del]

text \<open>The body of the outer \<open>try\<close> block.\<close>

definition processMessage_try ::
  "('w, 'c) bridge \<Rightarrow> string \<Rightarrow> 'w \<Rightarrow> (js_error + string) \<times> 'w \<times> event list" where
  "processMessage_try br message w =
     (case detectToolFromPrompt br w message of
        (Inl e, w1) \<Rightarrow> (Inl e, w1, [])
      | (Inr detectedTool, w1) \<Rightarrow>
          (case (case detectedTool of
                   None \<Rightarrow> (Inr (), w1)
                 | Some tool \<Rightarrow>
                     if tool = [] then (Inr (), w1)
                     else (case getToolInstructions br w1 tool of
                             (Inl e, w2) \<Rightarrow> (Inl e, w2)
                           | (Inr None, w2) \<Rightarrow> (Inr (), w2)
                           | (Inr (Some instructions), w2) \<Rightarrow>
                               if instructions = [] then (Inr (), w2)
                               else (Inr (), setSystemPrompt br w2 instructions))) of
             (Inl e, w3) \<Rightarrow> (Inl e, w3, [])
           | (Inr u, w3) \<Rightarrow>
               (case invokeWithPrompt br w3 message of
                  (Inl e, w4) \<Rightarrow> (Inl e, w4, [LLMPrompt message])
                | (Inr response, w4) \<Rightarrow>
                    (case tool_loop br message 0 {} [] response w4 of
                       (res, w5, evs) \<Rightarrow> (res, w5, LLMPrompt message # evs)))))"

text \<open>The \<open>catch\<close>: \<open>processMessage\<close> returns a string in either case.\<close>

definition processMessage ::
  "('w, 'c) bridge \<Rightarrow> string \<Rightarrow> 'w \<Rightarrow> string \<times> 'w \<times> event list" where
  "processMessage br message w =
     (case processMessage_try br message w of
        (Inr answer, w', evs) \<Rightarrow> (answer, w', evs)
      | (Inl error, w', evs) \<Rightarrow> (''Error processing message: '' @ error_text error, w', evs))"






subsection \<open>Observing what the collaborators throw\<close>

text \<open>
  The same bridge with an observer in front of the registry and of the model client:
  whatever one of their calls throws is appended to a list kept beside the world, and
  is thrown on unchanged. Tool peers are called inside the \<open>try\<close> of
  \<open>handleToolCalls\<close> and are not observed.
\<close>

definition recording ::
  "('w \<Rightarrow> 'a \<Rightarrow> (js_error + 'b) \<times> 'w) \<Rightarrow> 'w \<times> js_error list \<Rightarrow> 'a \<Rightarrow>
   (js_error + 'b) \<times> 'w \<times> js_error list" where
  "recording f = (\<lambda>(w, thrown) x.
     case f w x of
       (Inl e, w') \<Rightarrow> (Inl e, w', thrown @ [e])
     | (Inr y, w') \<Rightarrow> (Inr y, w', thrown))"

definition monitored :: "('w, 'c) bridge \<Rightarrow> ('w \<times> js_error list, 'c) bridge" where
  "monitored br =
     \<lparr>toolToMcp = toolToMcp br,
      detectToolFromPrompt = recording (detectToolFromPrompt br),
      getToolInstructions = recording (getToolInstructions br),
      setSystemPrompt = (\<lambda>(w, thrown) s. (setSystemPrompt br w s, thrown)),
      invokeWithPrompt = recording (invokeWithPrompt br),
      invoke = recording (invoke br),
      json_parse = json_parse br,
      callTool = (\<lambda>(w, thrown) c n a.
        case callTool br w c n a of (out, w') \<Rightarrow> (out, w', thrown))\<rparr>"

fun thrown_by :: "js_error + 'a \<Rightarrow> js_error list" where
  "thrown_by (Inl e) = [e]"
| "thrown_by (Inr a) = []"


section \<open>mcp-client.ts: transport and correlation\<close>

subsection \<open>Inbound text\<close>

text \<open>
  A chunk is a \<open>Buffer\<close> of bytes. Decoded text is a sequence of UTF-16 code units, as a
  JavaScript string is. \<open>data.toString()\<close> decodes the chunk as UTF-8 on its own: every
  maximal ill-formed part, an unfinished sequence at the end of the chunk included,
  becomes one U+FFFD.
\<close>

type_synonym byte = "8 word"
type_synonym js_string = "nat list"

definition continuation :: "nat \<Rightarrow> bool" where
  "continuation c = (0x80 \<le> c \<and> c \<le> 0xBF)"

text \<open>The range allowed for the byte after the lead byte \<open>b\<close> of a longer sequence.\<close>

definition second_ok :: "nat \<Rightarrow> nat \<Rightarrow> bool" where
  "second_ok b c =
     (if b = 0xE0 then 0xA0 \<le> c \<and> c \<le> 0xBF
      else if b = 0xED then 0x80 \<le> c \<and> c \<le> 0x9F
      else if b = 0xF0 then 0x90 \<le> c \<and> c \<le> 0xBF
      else if b = 0xF4 then 0x80 \<le> c \<and> c \<le> 0x8F
      else continuation c)"

fun utf8_decode :: "nat list \<Rightarrow> nat list" where
  "utf8_decode [] = []"
| "utf8_decode (b # bs) =
     (if b < 0x80 then b # utf8_decode bs
      else if 0xC2 \<le> b \<and> b \<le> 0xDF then
        (case bs of
           [] \<Rightarrow> [0xFFFD]
         | c1 # r1 \<Rightarrow>
             if continuation c1 then ((b - 0xC0) * 64 + (c1 - 0x80)) # utf8_decode r1
             else 0xFFFD # utf8_decode bs)
      else if 0xE0 \<le> b \<and> b \<le> 0xEF then
        (case bs of
           [] \<Rightarrow> [0xFFFD]
         | c1 # r1 \<Rightarrow>
             if second_ok b c1 then
               (case r1 of
                  [] \<Rightarrow> [0xFFFD]
                | c2 # r2 \<Rightarrow>
                    if continuation c2
                    then ((b - 0xE0) * 4096 + (c1 - 0x80) * 64 + (c2 - 0x80)) # utf8_decode r2
                    else 0xFFFD # utf8_decode r1)
             else 0xFFFD # utf8_decode bs)
      else if 0xF0 \<le> b \<and> b \<le> 0xF4 then
        (case bs of
           [] \<Rightarrow> [0xFFFD]
         | c1 # r1 \<Rightarrow>
             if second_ok b c1 then
               (case r1 of
                  [] \<Rightarrow> [0xFFFD]
                | c2 # r2 \<Rightarrow>
                    if continuation c2 then
                      (case r2 of
                         [] \<Rightarrow> [0xFFFD]
                       | c3 # r3 \<Rightarrow>
                           if continuation c3
                           then ((b - 0xF0) * 262144 + (c1 - 0x80) * 4096 + (c2 - 0x80) * 64
                                   + (c3 - 0x80)) # utf8_decode r3
                           else 0xFFFD # utf8_decode r2)
                    else 0xFFFD # utf8_decode r1)
             else 0xFFFD # utf8_decode bs)
      else 0xFFFD # utf8_decode bs)"

definition utf16_units :: "nat \<Rightarrow> nat list" where
  "utf16_units cp =
     (if cp < 0x10000 then [cp]
      else [0xD800 + (cp - 0x10000) div 0x400, 0xDC00 + (cp - 0x10000) mod 0x400])"

definition toString :: "byte list \<Rightarrow> js_string" where
  "toString data = concat (map utf16_units (utf8_decode (map unat data)))"

text \<open>ASCII text as code units.\<close>

definition ascii :: "string \<Rightarrow> js_string" where
  "ascii s = map of_char s"

text \<open>\<open>String.prototype.trim\<close>: white space and line terminators are stripped.\<close>

definition js_space :: "nat \<Rightarrow> bool" where
  "js_space c =
     (c \<in> {0x09, 0x0A, 0x0B, 0x0C, 0x0D, 0x20, 0xA0, 0x1680, 0x2028, 0x2029, 0x202F, 0x205F,
            0x3000, 0xFEFF}
      \<or> (0x2000 \<le> c \<and> c \<le> 0x200A))"

definition trim :: "js_string \<Rightarrow> js_string" where
  "trim s = rev (dropWhile js_space (rev (dropWhile js_space s)))"

text \<open>\<open>indexOf\<close>, with \<open>None\<close> for \<open>-1\<close>.\<close>

fun indexOf :: "'a list \<Rightarrow> 'a \<Rightarrow> nat option" where
  "indexOf [] x = None"
| "indexOf (y # ys) x =
     (if y = x then Some 0 else (case indexOf ys x of None \<Rightarrow> None | Some i \<Rightarrow> Some (i + 1)))"

subsection \<open>State of one client\<close>

text \<open>An outgoing message; a notification has no \<open>id\<close>.\<close>

record rpc_message =
  msg_id :: "nat option"
  msg_method :: string
  msg_params :: "json option"

text \<open>How a promise returned by \<open>sendMessage\<close> is settled.\<close>

datatype outcome = Resolved "json option" | Rejected js_error

text \<open>
  An entry of \<open>messageQueue\<close>. Its \<open>resolve\<close> and \<open>reject\<close> closures settle the promise
  \<open>promise\<close> and clear the timer of the same handle.
\<close>

record pending =
  message :: rpc_message
  promise :: nat

text \<open>
  The fields of the class, followed by what the closures and the streams hold:
  \<^item> \<open>timers\<close>: the armed timers, each with its delay in milliseconds and the message
    its callback captured;
  \<^item> \<open>settlements\<close>: every call of a promise's \<open>resolve\<close> or \<open>reject\<close>, in order; a
    promise takes the first one for its handle;
  \<^item> \<open>written\<close>: the messages written to the peer's input;
  \<^item> \<open>received\<close>: the lines handed to \<open>processMessage\<close>, in order;
  \<^item> \<open>nextPromise\<close>: the handle the next \<open>sendMessage\<close> gets.
\<close>

record client =
  process :: "nat option"
  stdin :: "nat option"
  stdout :: "nat option"
  initialized :: bool
  messageQueue :: "pending list"
  nextMessageId :: nat
  serverCapabilities :: "json option"
  serverVersion :: "json option"
  availableTools :: "json option set"
  responseBuffer :: js_string
  timers :: "nat \<rightharpoonup> nat \<times> rpc_message"
  settlements :: "(nat \<times> outcome) list"
  written :: "rpc_message list"
  received :: "js_string list"
  nextPromise :: nat

definition message_timeout_ms :: nat where
  "message_timeout_ms = 30000"

definition new_client :: client where
  "new_client =
     \<lparr>process = None, stdin = None, stdout = None, initialized = False, messageQueue = [],
      nextMessageId = 1, serverCapabilities = None, serverVersion = None,
      availableTools = {}, responseBuffer = [], timers = Map.empty, settlements = [],
      written = [], received = [], nextPromise = 0\<rparr>"

text \<open>The state of a promise: the first settlement for its handle.\<close>

definition promise_state :: "client \<Rightarrow> nat \<Rightarrow> outcome option" where
  "promise_state st p = map_of (settlements st) p"

definition settle :: "nat \<Rightarrow> outcome \<Rightarrow> client \<Rightarrow> client" where
  "settle p out st = st\<lparr>settlements := settlements st @ [(p, out)]\<rparr>"

definition clearTimeout :: "nat \<Rightarrow> client \<Rightarrow> client" where
  "clearTimeout p st = st\<lparr>timers := (timers st)(p := None)\<rparr>"

text \<open>The closures stored in a queue entry.\<close>

definition entry_resolve :: "pending \<Rightarrow> json option \<Rightarrow> client \<Rightarrow> client" where
  "entry_resolve m result st = settle (promise m) (Resolved result) (clearTimeout (promise m) st)"

definition entry_reject :: "pending \<Rightarrow> js_error \<Rightarrow> client \<Rightarrow> client" where
  "entry_reject m error st = settle (promise m) (Rejected error) (clearTimeout (promise m) st)"

subsection \<open>Reading a parsed response\<close>

text \<open>Property access on a non-null value; \<open>None\<close> is \<open>undefined\<close>.\<close>

fun field :: "json \<Rightarrow> string \<Rightarrow> json option" where
  "field (JObj fs) k = map_of fs k"
| "field j k = None"

fun truthy :: "json option \<Rightarrow> bool" where
  "truthy None = False"
| "truthy (Some JNull) = False"
| "truthy (Some (JBool b)) = b"
| "truthy (Some (JNum n)) = (n \<noteq> 0)"
| "truthy (Some (JStr s)) = (s \<noteq> [])"
| "truthy (Some j) = True"

text \<open>\<open>String(v)\<close> for a JSON value.\<close>

fun js_String :: "json \<Rightarrow> string" and js_String_items :: "json list \<Rightarrow> string list" where
  "js_String JNull = ''null''"
| "js_String (JBool b) = (if b then ''true'' else ''false'')"
| "js_String (JNum i) = show_int i"
| "js_String (JStr s) = s"
| "js_String (JArr xs) = join_comma (js_String_items xs)"
| "js_String (JObj fs) = ''[object Object]''"
| "js_String_items [] = []"
| "js_String_items (JNull # xs) = [] # js_String_items xs"
| "js_String_items (x # xs) = js_String x # js_String_items xs"

text \<open>The message of \<open>new Error(response.error.message)\<close> for a truthy \<open>response.error\<close>.\<close>

definition error_message_of :: "json \<Rightarrow> string" where
  "error_message_of err = (case field err ''message'' of None \<Rightarrow> [] | Some m \<Rightarrow> js_String m)"

text \<open>\<open>m.message.id === response.id\<close>.\<close>

fun strict_eq :: "nat option \<Rightarrow> json option \<Rightarrow> bool" where
  "strict_eq None None = True"
| "strict_eq (Some n) (Some (JNum k)) = (int n = k)"
| "strict_eq a b = False"

subsection \<open>processMessage and handleResponse\<close>

text \<open>
  The body of \<open>if (pendingMessage)\<close>. In the success branch the argument of
  \<open>logger.debug\<close>, \<open>JSON.stringify(response.result).length\<close>, is evaluated before
  \<open>resolve\<close> is called; for an absent \<open>result\<close> it throws a \<open>TypeError\<close>, which the
  enclosing \<open>catch\<close> logs, and the rest of the block is skipped.
\<close>

definition respond :: "json \<Rightarrow> pending \<Rightarrow> client \<Rightarrow> client" where
  "respond response pendingMessage st =
     (if truthy (field response ''error'') then
        (let st1 = entry_reject pendingMessage
                     (JsError ''Error''
                        (case field response ''error'' of
                           None \<Rightarrow> [] | Some err \<Rightarrow> error_message_of err)) st
         in st1\<lparr>messageQueue :=
                  filter (\<lambda>m. \<not> strict_eq (msg_id (message m)) (field response ''id''))
                    (messageQueue st1)\<rparr>)
      else
        (case field response ''result'' of
           None \<Rightarrow> st
         | Some result \<Rightarrow>
             (let st1 = entry_resolve pendingMessage (Some result) st
              in st1\<lparr>messageQueue :=
                       filter (\<lambda>m. \<not> strict_eq (msg_id (message m)) (field response ''id''))
                         (messageQueue st1)\<rparr>)))"

text \<open>
  \<open>processMessage\<close> of the client; \<open>parse\<close> is \<open>JSON.parse\<close>. A line that does not
  parse, and the value \<open>null\<close> (whose \<open>id\<close> cannot be read), end in the \<open>catch\<close>.
\<close>

definition mcp_processMessage ::
  "(js_string \<Rightarrow> js_error + json) \<Rightarrow> client \<Rightarrow> js_string \<Rightarrow> client" where
  "mcp_processMessage parse st messageLine =
     (case parse messageLine of
        Inl e \<Rightarrow> st
      | Inr JNull \<Rightarrow> st
      | Inr response \<Rightarrow>
          (case find (\<lambda>m. strict_eq (msg_id (message m)) (field response ''id''))
                  (messageQueue st) of
             None \<Rightarrow> st
           | Some pendingMessage \<Rightarrow> respond response pendingMessage st))"

lemma responseBuffer_respond [simp]:
  "responseBuffer (respond response m st) = responseBuffer st"
  by (simp add: respond_def entry_reject_def entry_resolve_def settle_def clearTimeout_def
      Let_def split: option.splits)

lemma responseBuffer_mcp_processMessage [simp]:
  "responseBuffer (mcp_processMessage parse st messageLine) = responseBuffer st"
  by (simp add: mcp_processMessage_def split: sum.splits json.splits option.splits)

lemma indexOf_less: "indexOf xs x = Some i \<Longrightarrow> i < length xs"
  by (induction xs arbitrary: i) (auto split: if_splits option.splits)

text \<open>The \<open>while\<close> loop of \<open>handleResponse\<close>.\<close>

function drain :: "(js_string \<Rightarrow> js_error + json) \<Rightarrow> client \<Rightarrow> client" where
  "drain parse st =
     (case indexOf (responseBuffer st) 0x0A of
        None \<Rightarrow> st
      | Some newlineIndex \<Rightarrow>
          (let messageLine = trim (take newlineIndex (responseBuffer st));
               st1 = st\<lparr>responseBuffer := drop (newlineIndex + 1) (responseBuffer st)\<rparr>
           in drain parse
                (if messageLine \<noteq> []
                 then mcp_processMessage parse
                        (st1\<lparr>received := received st1 @ [messageLine]\<rparr>) messageLine
                 else st1)))"
  by pat_completeness auto
termination
  by (relation "measure (\<lambda>(parse, st). length (responseBuffer st))")
     (auto dest: indexOf_less)

declare drain.simps [simp del]

text \<open>One pass of the loop body, for a buffer that holds a newline at \<open>i\<close>.\<close>

definition next_line :: "(js_string \<Rightarrow> js_error + json) \<Rightarrow> nat \<Rightarrow> client \<Rightarrow> client" where
  "next_line parse i st =
     (let messageLine = trim (take i (responseBuffer st));
          st1 = st\<lparr>responseBuffer := drop (i + 1) (responseBuffer st)\<rparr>
      in if messageLine \<noteq> []
         then mcp_processMessage parse (st1\<lparr>received := received st1 @ [messageLine]\<rparr>) messageLine
         else st1)"

text \<open>\<open>handleResponse\<close> after \<open>data.toString()\<close>, and \<open>handleResponse\<close> itself.\<close>

definition handleText ::
  "(js_string \<Rightarrow> js_error + json) \<Rightarrow> client \<Rightarrow> js_string \<Rightarrow> client" where
  "handleText parse st chunk = drain parse (st\<lparr>responseBuffer := responseBuffer st @ chunk\<rparr>)"

definition handleResponse ::
  "(js_string \<Rightarrow> js_error + json) \<Rightarrow> client \<Rightarrow> byte list \<Rightarrow> client" where
  "handleResponse parse st data = handleText parse st (toString data)"

subsection \<open>sendMessage, its write callback and its timer\<close>

text \<open>The executor of the promise \<open>sendMessage\<close> returns; the result is the promise's handle.\<close>

definition sendMessage :: "client \<Rightarrow> rpc_message \<Rightarrow> nat \<times> client" where
  "sendMessage st msg =
     (let p = nextPromise st; st0 = st\<lparr>nextPromise := p + 1\<rparr> in
      if stdin st = None \<or> stdout st = None
      then (p, settle p (Rejected (JsError ''Error'' ''[MCP Client] Connection not established'')) st0)
      else
        (p, st0\<lparr>timers := (timers st0)(p \<mapsto> (message_timeout_ms, msg)),
                messageQueue :=
                  (if msg_id msg \<noteq> None
                   then messageQueue st0 @ [\<lparr>message = msg, promise = p\<rparr>]
                   else messageQueue st0),
                written := written st0 @ [msg]\<rparr>))"

text \<open>The callback of \<open>stdin.write\<close> for the message of promise \<open>p\<close>.\<close>

definition write_callback :: "client \<Rightarrow> nat \<Rightarrow> rpc_message \<Rightarrow> js_error option \<Rightarrow> client" where
  "write_callback st p msg error =
     (case error of
        Some e \<Rightarrow> settle p (Rejected e) (clearTimeout p st)
      | None \<Rightarrow>
          if msg_id msg = None then settle p (Resolved None) (clearTimeout p st) else st)"

fun findIndex :: "('a \<Rightarrow> bool) \<Rightarrow> 'a list \<Rightarrow> nat option" where
  "findIndex P [] = None"
| "findIndex P (x # xs) =
     (if P x then Some 0 else (case findIndex P xs of None \<Rightarrow> None | Some i \<Rightarrow> Some (i + 1)))"

definition timeout_error :: "rpc_message \<Rightarrow> js_error" where
  "timeout_error msg =
     JsError ''Error''
       (''[MCP Client] Message timeout after 30 seconds for message id: ''
          @ (case msg_id msg of None \<Rightarrow> ''undefined'' | Some i \<Rightarrow> show_nat i))"

text \<open>
  The timer of promise \<open>p\<close> fires, its delay after it was armed. A timer that was
  cleared does not fire.
\<close>

definition timeout_fires :: "client \<Rightarrow> nat \<Rightarrow> client" where
  "timeout_fires st p =
     (case timers st p of
        None \<Rightarrow> st
      | Some (delay, msg) \<Rightarrow>
          (let st1 = st\<lparr>timers := (timers st)(p := None)\<rparr> in
           case findIndex (\<lambda>m. msg_id (message m) = msg_id msg) (messageQueue st1) of
             None \<Rightarrow> st1
           | Some index \<Rightarrow>
               settle p (Rejected (timeout_error msg))
                 (st1\<lparr>messageQueue :=
                        take index (messageQueue st1) @ drop (index + 1) (messageQueue st1)\<rparr>)))"

subsection \<open>close\<close>

definition close :: "client \<Rightarrow> client" where
  "close st =
     st\<lparr>process := None, stdin := None, stdout := None, initialized := False,
        availableTools := {}, responseBuffer := []\<rparr>"

subsection \<open>connect and the requests built on sendMessage\<close>

text \<open>
  An \<open>await\<close> hands control to the event loop. It is a parameter: from the state at the
  suspension and the awaited promise it gives the state at the resumption and how the
  promise was settled, or \<open>None\<close> when it never is.
\<close>

type_synonym await = "client \<Rightarrow> nat \<Rightarrow> outcome option \<times> client"

datatype 'a completion = Unsettled | Rejects js_error | Fulfils 'a

definition initMessage :: "nat \<Rightarrow> rpc_message" where
  "initMessage i =
     \<lparr>msg_id = Some i, msg_method = ''initialize'',
      msg_params =
        Some (JObj [(''protocolVersion'', JStr ''0.1.0''),
                    (''capabilities'',
                       JObj [(''tools'', JObj [(''call'', JBool True), (''list'', JBool True)])]),
                    (''clientInfo'',
                       JObj [(''name'', JStr ''MCPLLMBridge''), (''version'', JStr ''1.0.0'')])])\<rparr>"

text \<open>
  \<open>!response || typeof response.protocolVersion !== 'string'\<close> is false: the
  handshake response is accepted.
\<close>

definition valid_handshake :: "json option \<Rightarrow> bool" where
  "valid_handshake response =
     (case response of
        None \<Rightarrow> False
      | Some r \<Rightarrow>
          truthy (Some r) \<and>
          (case field r ''protocolVersion'' of Some (JStr v) \<Rightarrow> True | _ \<Rightarrow> False))"

text \<open>\<open>response.capabilities\<close> and \<open>response.serverInfo\<close> of an accepted response.\<close>

definition response_field :: "json option \<Rightarrow> string \<Rightarrow> json option" where
  "response_field response k = (case response of None \<Rightarrow> None | Some r \<Rightarrow> field r k)"

definition initialize :: "await \<Rightarrow> client \<Rightarrow> unit completion \<times> client" where
  "initialize await st =
     (if stdin st = None \<or> stdout st = None
      then (Rejects (JsError ''Error'' ''[MCP Client] Connection not established''), st)
      else
        (case sendMessage (st\<lparr>nextMessageId := nextMessageId st + 1\<rparr>)
                (initMessage (nextMessageId st)) of
           (p, st1) \<Rightarrow>
             (case await st1 p of
                (None, st2) \<Rightarrow> (Unsettled, st2)
              | (Some (Rejected e), st2) \<Rightarrow> (Rejects e, st2)
              | (Some (Resolved response), st2) \<Rightarrow>
                  if \<not> valid_handshake response then
                    (Rejects (JsError ''Error''
                                ''[MCP Client] Invalid initialization response from server''),
                     st2)
                  else
                    (case sendMessage
                            (st2\<lparr>serverCapabilities := response_field response ''capabilities'',
                                 serverVersion := response_field response ''serverInfo'',
                                 initialized := True\<rparr>)
                            \<lparr>msg_id = None, msg_method = ''notifications/initialized'',
                             msg_params = None\<rparr> of
                       (p2, st3) \<Rightarrow>
                         (case await st3 p2 of
                            (None, st4) \<Rightarrow> (Unsettled, st4)
                          | (Some (Rejected e), st4) \<Rightarrow> (Rejects e, st4)
                          | (Some (Resolved u), st4) \<Rightarrow> (Fulfils (), st4))))))"

definition getAvailableTools :: "await \<Rightarrow> client \<Rightarrow> json completion \<times> client" where
  "getAvailableTools await st =
     (if \<not> initialized st
      then (Rejects (JsError ''Error'' ''[MCP Client] Client not initialized''), st)
      else
        (case sendMessage (st\<lparr>nextMessageId := nextMessageId st + 1\<rparr>)
                \<lparr>msg_id = Some (nextMessageId st), msg_method = ''tools/list'',
                 msg_params = Some (JObj [])\<rparr> of
           (p, st1) \<Rightarrow>
             (case await st1 p of
                (None, st2) \<Rightarrow> (Unsettled, st2)
              | (Some (Rejected e), st2) \<Rightarrow> (Rejects e, st2)
              | (Some (Resolved None), st2) \<Rightarrow>
                  (Rejects (JsError ''TypeError''
                              ''Cannot read properties of undefined (reading 'tools')''), st2)
              | (Some (Resolved (Some JNull)), st2) \<Rightarrow>
                  (Rejects (JsError ''TypeError''
                              ''Cannot read properties of null (reading 'tools')''), st2)
              | (Some (Resolved (Some response)), st2) \<Rightarrow>
                  (case field response ''tools'' of
                     None \<Rightarrow> (Fulfils (JArr []), st2)
                   | Some tools \<Rightarrow>
                       (Fulfils (if truthy (Some tools) then tools else JArr []), st2)))))"

text \<open>\<open>tools.map(tool => tool.name)\<close>; it throws on a \<open>null\<close> element.\<close>

definition tool_names :: "json list \<Rightarrow> json option list option" where
  "tool_names tools =
     (if JNull \<in> set tools then None else Some (map (\<lambda>tool. field tool ''name'') tools))"

text \<open>Every failure inside \<open>updateAvailableTools\<close> is caught and logged.\<close>

definition updateAvailableTools :: "await \<Rightarrow> client \<Rightarrow> unit completion \<times> client" where
  "updateAvailableTools await st =
     (case getAvailableTools await st of
        (Unsettled, st1) \<Rightarrow> (Unsettled, st1)
      | (Rejects e, st1) \<Rightarrow> (Fulfils (), st1)
      | (Fulfils (JArr tools), st1) \<Rightarrow>
          (case tool_names tools of
             None \<Rightarrow> (Fulfils (), st1)
           | Some names \<Rightarrow> (Fulfils (), st1\<lparr>availableTools := set names\<rparr>))
      | (Fulfils other, st1) \<Rightarrow> (Fulfils (), st1))"

text \<open>
  \<open>connect\<close>. \<open>spawned\<close> is what \<open>spawn\<close> does: it throws, or it returns a process with
  its \<open>stdin\<close> and \<open>stdout\<close> streams. The \<open>catch\<close> logs and rethrows.
\<close>

definition connect ::
  "await \<Rightarrow> js_error + nat \<times> nat option \<times> nat option \<Rightarrow> client \<Rightarrow> unit completion \<times> client" where
  "connect await spawned st =
     (case spawned of
        Inl e \<Rightarrow> (Rejects e, st)
      | Inr (child, child_stdin, child_stdout) \<Rightarrow>
          (case initialize await
                  (st\<lparr>process := Some child, stdin := child_stdin, stdout := child_stdout\<rparr>) of
             (Unsettled, st1) \<Rightarrow> (Unsettled, st1)
           | (Rejects e, st1) \<Rightarrow> (Rejects e, st1)
           | (Fulfils u, st1) \<Rightarrow> updateAvailableTools await st1))"

text \<open>
  The client after \<open>spawn\<close> has returned, and at the first suspension of \<open>connect\<close>,
  when the handshake request has been sent.
\<close>

definition spawned_client :: "client \<Rightarrow> nat \<Rightarrow> nat option \<Rightarrow> nat option \<Rightarrow> client" where
  "spawned_client st child child_stdin child_stdout =
     st\<lparr>process := Some child, stdin := child_stdin, stdout := child_stdout\<rparr>"

definition handshake_sent :: "client \<Rightarrow> nat \<Rightarrow> nat option \<Rightarrow> nat option \<Rightarrow> client" where
  "handshake_sent st child child_stdin child_stdout =
     snd (sendMessage
            ((spawned_client st child child_stdin child_stdout)\<lparr>nextMessageId := nextMessageId st + 1\<rparr>)
            (initMessage (nextMessageId st)))"

subsection \<open>The event loop of one client\<close>

text \<open>
  A request as \<open>initialize\<close>, \<open>getAvailableTools\<close> and \<open>callTool\<close> send it:
  \<open>sendMessage\<close> with \<open>id: this.nextMessageId++\<close>.
\<close>

definition send_request :: "client \<Rightarrow> string \<Rightarrow> json option \<Rightarrow> nat \<times> client" where
  "send_request st rpc_method rpc_params =
     sendMessage (st\<lparr>nextMessageId := nextMessageId st + 1\<rparr>)
       \<lparr>msg_id = Some (nextMessageId st), msg_method = rpc_method, msg_params = rpc_params\<rparr>"

text \<open>
  What happens to a client between two suspensions, one event at a time: \<open>connect\<close>
  stores the spawned process and its streams, a request or a notification is sent, a
  chunk arrives on \<open>stdout\<close>, the callback of a \<open>stdin.write\<close> runs, a timer fires,
  \<open>close\<close> is called, \<open>initialize\<close> stores what the server announced,
  \<open>updateAvailableTools\<close> stores the tool names.
\<close>

datatype client_event =
    Spawn nat "nat option" "nat option"
  | Request string "json option"
  | Notify string "json option"
  | Chunk "byte list"
  | WriteDone nat rpc_message "js_error option"
  | TimerFires nat
  | Close
  | Initialized "json option" "json option"
  | ToolsUpdated "json option list"

fun step :: "(js_string \<Rightarrow> js_error + json) \<Rightarrow> client \<Rightarrow> client_event \<Rightarrow> client" where
  "step parse st (Spawn child child_stdin child_stdout) =
     st\<lparr>process := Some child, stdin := child_stdin, stdout := child_stdout\<rparr>"
| "step parse st (Request rpc_method rpc_params) = snd (send_request st rpc_method rpc_params)"
| "step parse st (Notify rpc_method rpc_params) =
     snd (sendMessage st \<lparr>msg_id = None, msg_method = rpc_method, msg_params = rpc_params\<rparr>)"
| "step parse st (Chunk data) = handleResponse parse st data"
| "step parse st (WriteDone p msg error) = write_callback st p msg error"
| "step parse st (TimerFires p) = timeout_fires st p"
| "step parse st Close = close st"
| "step parse st (Initialized capabilities version) =
     st\<lparr>serverCapabilities := capabilities, serverVersion := version, initialized := True\<rparr>"
| "step parse st (ToolsUpdated names) = st\<lparr>availableTools := set names\<rparr>"

definition run :: "(js_string \<Rightarrow> js_error + json) \<Rightarrow> client \<Rightarrow> client_event list \<Rightarrow> client" where
  "run parse st evs = foldl (step parse) st evs"

text \<open>Every event of a run satisfies \<open>ok\<close> in the state it happens in.\<close>

fun run_where ::
  "(client \<Rightarrow> client_event \<Rightarrow> bool) \<Rightarrow> (js_string \<Rightarrow> js_error + json) \<Rightarrow> client \<Rightarrow>
   client_event list \<Rightarrow> bool" where
  "run_where ok parse st [] = True"
| "run_where ok parse st (ev # evs) = (ok st ev \<and> run_where ok parse (step parse st ev) evs)"

text \<open>A line that parses to a response whose \<open>id\<close> is strictly equal to \<open>i\<close>.\<close>

definition answers :: "(js_string \<Rightarrow> js_error + json) \<Rightarrow> nat option \<Rightarrow> js_string \<Rightarrow> bool" where
  "answers parse i line =
     (case parse line of Inl e \<Rightarrow> False | Inr response \<Rightarrow> strict_eq i (field response ''id''))"

text \<open>
  A write callback belongs to a promise that exists and to a message that was written.
\<close>

fun possible :: "client \<Rightarrow> client_event \<Rightarrow> bool" where
  "possible st (WriteDone p msg error) = (p < nextPromise st \<and> msg \<in> set (written st))"
| "possible st ev = True"

text \<open>
  Events that do not concern the request of promise \<open>p\<close> with message \<open>msg\<close>: a
  chunk none of whose lines bears its id, the callback of its write reporting success,
  every callback and timer of another promise, and everything else.
\<close>

fun quiet ::
  "(js_string \<Rightarrow> js_error + json) \<Rightarrow> nat \<Rightarrow> rpc_message \<Rightarrow> client \<Rightarrow> client_event \<Rightarrow> bool" where
  "quiet parse p msg st (Chunk data) =
     (\<forall>line \<in> set (drop (length (received st)) (received (handleResponse parse st data))).
        \<not> answers parse (msg_id msg) line)"
| "quiet parse p msg st (WriteDone p' msg' error) = (p' = p \<longrightarrow> msg' = msg \<and> error = None)"
| "quiet parse p msg st (TimerFires p') = (p' \<noteq> p)"
| "quiet parse p msg st ev = True"

text \<open>The callback of the write of promise \<open>p\<close> was given the message \<open>msg\<close>.\<close>

fun own_callback :: "nat \<Rightarrow> rpc_message \<Rightarrow> client \<Rightarrow> client_event \<Rightarrow> bool" where
  "own_callback p msg st (WriteDone p' msg' error) = (p' = p \<longrightarrow> msg' = msg)"
| "own_callback p msg st ev = True"

text \<open>
  Message ids and promise handles in use are below the next ones: every queue entry,
  timer and settlement was made by \<open>sendMessage\<close> with an id taken from
  \<open>nextMessageId\<close>.
\<close>

definition fresh_ids :: "client \<Rightarrow> bool" where
  "fresh_ids st =
     ((\<forall>q \<in> set (messageQueue st).
         (\<forall>j. msg_id (message q) = Some j \<longrightarrow> j < nextMessageId st) \<and>
         promise q < nextPromise st) \<and>
      (\<forall>p d m. timers st p = Some (d, m) \<longrightarrow>
         p < nextPromise st \<and> (\<forall>j. msg_id m = Some j \<longrightarrow> j < nextMessageId st)) \<and>
      (\<forall>s \<in> set (settlements st). fst s < nextPromise st))"

text \<open>
  The request of promise \<open>p\<close> is in flight: its entry is the only one with its id or
  its promise, its timer is armed with the delay \<open>message_timeout_ms\<close> and is the only
  one that captured its id, and the promise is not settled.
\<close>

definition in_flight :: "nat \<Rightarrow> rpc_message \<Rightarrow> client \<Rightarrow> bool" where
  "in_flight p msg st =
     ((\<exists>i. msg_id msg = Some i \<and> i < nextMessageId st) \<and> p < nextPromise st \<and>
      filter (\<lambda>q. msg_id (message q) = msg_id msg \<or> promise q = p) (messageQueue st)
        = [\<lparr>message = msg, promise = p\<rparr>] \<and>
      timers st p = Some (message_timeout_ms, msg) \<and>
      (\<forall>p' d m. timers st p' = Some (d, m) \<and> msg_id m = msg_id msg \<longrightarrow> p' = p) \<and>
      promise_state st p = None)"

text \<open>No queue entry bears the id \<open>i\<close>, which has been used.\<close>

definition gone :: "nat \<Rightarrow> client \<Rightarrow> bool" where
  "gone i st =
     (i < nextMessageId st \<and> (\<forall>q \<in> set (messageQueue st). msg_id (message q) \<noteq> Some i))"

text \<open>
  Where an awaited request stands: in flight, rejected, or resolved with the \<open>result\<close>
  of a line bearing its id that was received after the first \<open>n\<close> lines.
\<close>

definition awaited ::
  "(js_string \<Rightarrow> js_error + json) \<Rightarrow> nat \<Rightarrow> nat \<Rightarrow> rpc_message \<Rightarrow> client \<Rightarrow> bool" where
  "awaited parse n p msg s =
     (in_flight p msg s \<or>
      (\<exists>e. promise_state s p = Some (Rejected e)) \<or>
      (\<exists>line r v. line \<in> set (drop n (received s)) \<and> parse line = Inr r \<and>
         strict_eq (msg_id msg) (field r ''id'') \<and> field r ''result'' = Some v \<and>
         promise_state s p = Some (Resolved (Some v))))"

text \<open>An \<open>await\<close> during which the events \<open>evs\<close> happen.\<close>

definition event_loop :: "(js_string \<Rightarrow> js_error + json) \<Rightarrow> client_event list \<Rightarrow> await" where
  "event_loop parse evs st p = (promise_state (run parse st evs) p, run parse st evs)"

section \<open>Example collaborators\<close>

text \<open>
  A model client that follows a script (its \<open>k\<close>-th call returns \<open>script k\<close>, the world
  being the number of calls so far), one registered tool \<open>search\<close> whose peer answers
  \<open>found\<close>, and \<open>JSON.parse\<close> on the few texts the examples use.
\<close>

definition example_parse :: "string \<Rightarrow> js_error + json" where
  "example_parse s =
     (if s = ''{}'' then Inr (JObj [])
      else if s = ''0'' then Inr (JNum 0)
      else if s = ''1'' then Inr (JNum 1)
      else if s = ''2'' then Inr (JNum 2)
      else if s = ''3'' then Inr (JNum 3)
      else Inl (JsError ''SyntaxError'' ''Unexpected token''))"

definition search_request :: "string \<Rightarrow> string \<Rightarrow> llm_response" where
  "search_request answer args =
     \<lparr>content = answer, isToolCall = True,
      toolCalls = Some [\<lparr>tc_id = ''call'', tc_name = ''search'', tc_arguments = args\<rparr>]\<rparr>"

definition scripted_bridge :: "(nat \<Rightarrow> js_error + llm_response) \<Rightarrow> (nat, unit) bridge" where
  "scripted_bridge script =
     \<lparr>toolToMcp = [''search'' \<mapsto> ()],
      detectToolFromPrompt = (\<lambda>w m. (Inr None, w)),
      getToolInstructions = (\<lambda>w t. (Inr None, w)),
      setSystemPrompt = (\<lambda>w s. w),
      invokeWithPrompt = (\<lambda>w p. (script w, w + 1)),
      invoke = (\<lambda>w ms. (script w, w + 1)),
      json_parse = example_parse,
      callTool = (\<lambda>w c n a. (Returned (Some (JStr ''found'')), w))\<rparr>"

definition looping_bridge :: "(nat, unit) bridge" where
  "looping_bridge = scripted_bridge (\<lambda>k. Inr (search_request [] (show_nat k)))"


text \<open>A model client whose third call fails.\<close>

definition flaky_bridge :: "(nat, unit) bridge" where
  "flaky_bridge =
     scripted_bridge (\<lambda>k. if k < 2 then Inr (search_request [] (show_nat k))
                          else Inl (JsError ''Error'' ''down''))"

definition found :: tool_response where
  "found = \<lparr>tool_call_id = ''call'', tr_output = Some ''found''\<rparr>"

text \<open>
  A client whose process is running and which has used id 1 for a request, the client waiting for its
  response, and \<open>JSON.parse\<close> on the lines the examples use.
\<close>

definition open_client :: client where
  "open_client =
     new_client\<lparr>process := Some 1, stdin := Some 1, stdout := Some 1, nextMessageId := 2\<rparr>"

definition example_request :: rpc_message where
  "example_request = \<lparr>msg_id = Some 1, msg_method = ''tools/list'', msg_params = Some (JObj [])\<rparr>"

definition waiting_client :: client where
  "waiting_client = snd (sendMessage open_client example_request)"

definition line_parse :: "js_string \<Rightarrow> js_error + json" where
  \<open>line_parse line =
     (if line = ascii ''{"jsonrpc":"2.0","id":1,"result":"ok"}''
        then Inr (JObj [(''jsonrpc'', JStr ''2.0''), (''id'', JNum 1), (''result'', JStr ''ok'')])
      else if line = ascii ''{"jsonrpc":"2.0","id":1}''
        then Inr (JObj [(''jsonrpc'', JStr ''2.0''), (''id'', JNum 1)])
      else if line = ascii ''{"jsonrpc":"2.0","id":1,"result":{"capabilities":{}}}''
        then Inr (JObj [(''jsonrpc'', JStr ''2.0''), (''id'', JNum 1),
                        (''result'', JObj [(''capabilities'', JObj [])])])
      else Inl (JsError ''SyntaxError'' ''Unexpected token''))\<close>

text \<open>The bytes of ASCII text followed by a newline, as the peer writes one message.\<close>

definition wire :: "string \<Rightarrow> byte list" where
  "wire s = map of_char s @ [0x0A]"

text \<open>An \<open>await\<close> during which one chunk from the peer arrives.\<close>

definition peer_sends :: "(js_string \<Rightarrow> js_error + json) \<Rightarrow> byte list \<Rightarrow> await" where
  "peer_sends parse chunk st p =
     (let st' = handleResponse parse st chunk in (promise_state st' p, st'))"

section \<open>Properties of the orchestration loop\<close>

subsection \<open>handleToolCalls\<close>

lemma handle_loop_length: "length (fst (handle_loop br calls acc w)) = length acc + length calls"
  by (induction calls arbitrary: acc w) (auto split: prod.splits)

lemma tool_entry_id: "tool_call_id (fst (tool_entry br c w)) = tc_id c"
  by (auto simp: tool_entry_def split: prod.splits sum.splits)

lemma handle_loop_ids: "map tool_call_id (fst (handle_loop br calls acc w)) = map tool_call_id acc @ map tc_id calls"
proof (induction calls arbitrary: acc w)
  case Nil then show ?case by simp
next
  case (Cons c cs)
  obtain entry w' where e: "tool_entry br c w = (entry, w')" by (cases "tool_entry br c w")
  have "tool_call_id entry = tc_id c" using tool_entry_id[of br c w] e by simp
  then show ?case using Cons.IH[of "acc @ [entry]" w'] e by simp
qed


subsection \<open>One step of the loop\<close>

lemma tool_loop_stop:
  "\<not> requests_tools response \<Longrightarrow>
   tool_loop br userMessage ic seen results response w = (Inr (content response), w, [])"
  by (subst tool_loop.simps) simp

lemma tool_loop_forced:
  "requests_tools response \<Longrightarrow>
   call_signature (calls_of response) \<in> seen \<or> \<not> ic < maxIterations \<Longrightarrow>
   tool_loop br userMessage ic seen results response w = force_final br userMessage results w"
  by (subst tool_loop.simps) (auto simp: Let_def)

lemma tool_loop_step:
  assumes "requests_tools response" "ic < maxIterations"
    "call_signature (calls_of response) \<notin> seen"
    "handleToolCalls br (calls_of response) w = (trs, w1)"
  shows "tool_loop br userMessage ic seen results response w =
     (case invoke br w1 (round_messages (ic + 1) trs) of
        (Inl e, w2) \<Rightarrow> (Inl e, w2, [Dispatch (calls_of response), LLMInvoke (round_messages (ic + 1) trs)])
      | (Inr response', w2) \<Rightarrow>
          (case tool_loop br userMessage (ic + 1) (insert (call_signature (calls_of response)) seen)
                  (results @ trs) response' w2 of
             (res, w3, evs) \<Rightarrow>
               (res, w3, Dispatch (calls_of response) # LLMInvoke (round_messages (ic + 1) trs) # evs)))"
  using assms by (subst tool_loop.simps) simp






lemma sublist_result_lines:
  "r \<in> set results \<Longrightarrow> sublist (output_text r) (result_lines index results)"
proof (induction results arbitrary: index)
  case Nil then show ?case by simp
next
  case (Cons a rs)
  show ?case
  proof (cases "r = a")
    case True
    have "result_lines index (a # rs) = (''Result '' @ show_nat (index + 1) @ '': '') @ output_text a @
        ([CHR 0x0A, CHR 0x0A] @ result_lines (index + 1) rs)" by simp
    then show ?thesis unfolding True sublist_def by blast
  next
    case False
    then have "sublist (output_text r) (result_lines (index + 1) rs)" using Cons by simp
    then obtain p q where "result_lines (index + 1) rs = p @ output_text r @ q"
      unfolding sublist_def by blast
    then have "result_lines index (a # rs) =
       (''Result '' @ show_nat (index + 1) @ '': '' @ output_text a @ [CHR 0x0A, CHR 0x0A] @ p)
         @ output_text r @ q" by simp
    then have "sublist (output_text r) (result_lines index (a # rs))"
      unfolding sublist_def by blast
    then show ?thesis by simp
  qed
qed

lemma finalPrompt_embeds:
  "r \<in> set results \<Longrightarrow> sublist (output_text r) (finalPrompt userMessage results)"
proof -
  assume a: "r \<in> set results"
  then have ne: "length results > 0" by (cases results) auto
  from a have "sublist (output_text r) (result_lines 0 results)" by (rule sublist_result_lines)
  then obtain p q where "result_lines 0 results = p @ output_text r @ q" unfolding sublist_def by blast
  then have "finalPrompt userMessage results =
     (userMessage @ [CHR 0x0A, CHR 0x0A] @ ''Here are the search results I've found:'' @ [CHR 0x0A, CHR 0x0A] @ p)
      @ output_text r @ (q @ [CHR 0x0A, CHR 0x0A]
       @ ''Based on these search results, please provide a comprehensive answer. Do not make another search request.'')"
    using ne by (simp add: finalPrompt_def compiledResults_def)
  then show ?thesis unfolding sublist_def by blast
qed






















subsection \<open>Results of a batch and the outer catch\<close>

lemma handleToolCalls_length:
  "length (fst (handleToolCalls br calls w)) = length calls"
  by (simp add: handleToolCalls_def handle_loop_length)

lemma handleToolCalls_ids:
  "map tool_call_id (fst (handleToolCalls br calls w)) = map tc_id calls"
  by (simp add: handleToolCalls_def handle_loop_ids)

lemma failed_call_entry:
  "call_one br toolCall w = (Inl e, w') \<Longrightarrow>
   tool_entry br toolCall w =
     (\<lparr>tool_call_id = tc_id toolCall, tr_output = Some (''Error: '' @ error_text e)\<rparr>, w')"
  by (simp add: tool_entry_def)

lemma unknown_tool_entry:
  "toolToMcp br (tc_name toolCall) = None \<Longrightarrow>
   tc_name toolCall \<notin> set object_prototype_props \<Longrightarrow>
   tool_entry br toolCall w =
     (\<lparr>tool_call_id = tc_id toolCall,
       tr_output = Some (''Error: No MCP found for tool: '' @ tc_name toolCall)\<rparr>, w)"
  by (simp add: tool_entry_def call_one_def)


text \<open>
  C6. \<open>handleToolCalls\<close> returns one entry per call, in the order of the calls, and a
  failing call yields an entry whose output is \<open>Error: ...\<close> (the three lemmas above).
  The text for a name with no registered owner is not always \<open>No MCP found for tool\<close>:
  for the unregistered name \<open>constructor\<close> the lookup finds the property inherited from
  \<open>Object.prototype\<close>, the guard is passed, and the entry reports the \<open>TypeError\<close> of
  calling \<open>callTool\<close> on it. The unregistered name \<open>foo\<close> in the same batch is reported
  as the claim says.
\<close>

theorem inherited_name_error_text:
  "toolToMcp looping_bridge ''constructor'' = None \<and>
   toolToMcp looping_bridge ''foo'' = None \<and>
   handleToolCalls looping_bridge
     [\<lparr>tc_id = ''1'', tc_name = ''constructor'', tc_arguments = ''{}''\<rparr>,
      \<lparr>tc_id = ''2'', tc_name = ''foo'', tc_arguments = ''{}''\<rparr>] 0 =
     ([\<lparr>tool_call_id = ''1'',
        tr_output = Some ''Error: mcpClient.callTool is not a function''\<rparr>,
       \<lparr>tool_call_id = ''2'', tr_output = Some ''Error: No MCP found for tool: foo''\<rparr>], 0)"
  by code_simp


subsection \<open>Throws of the registry and of the model client\<close>

lemma recording_apply:
  "recording f (w, thrown) x =
     (case f w x of (r, w') \<Rightarrow> (r, w', thrown @ thrown_by r))"
  by (simp add: recording_def split: prod.splits sum.splits)

lemma monitored_call_one:
  "call_one (monitored br) c (w, thrown) =
     (case call_one br c w of (r, w') \<Rightarrow> (r, w', thrown))"
  by (simp add: call_one_def monitored_def Let_def
      split: option.splits sum.splits prod.splits race_outcome.splits)

lemma monitored_tool_entry:
  "tool_entry (monitored br) c (w, thrown) =
     (case tool_entry br c w of (r, w') \<Rightarrow> (r, w', thrown))"
  by (simp add: tool_entry_def monitored_call_one split: prod.splits sum.splits)

lemma monitored_handle_loop:
  "handle_loop (monitored br) calls acc (w, thrown) =
     (case handle_loop br calls acc w of (trs, w') \<Rightarrow> (trs, w', thrown))"
  by (induction calls arbitrary: acc w)
     (simp_all add: monitored_tool_entry split: prod.splits)

lemma monitored_handleToolCalls:
  "handleToolCalls (monitored br) calls (w, thrown) =
     (case handleToolCalls br calls w of (trs, w') \<Rightarrow> (trs, w', thrown))"
  by (simp add: handleToolCalls_def monitored_handle_loop)

lemma monitored_invokeWithPrompt:
  "invokeWithPrompt (monitored br) (w, thrown) p =
     (case invokeWithPrompt br w p of (r, w') \<Rightarrow> (r, w', thrown @ thrown_by r))"
  by (simp add: monitored_def recording_apply)

lemma monitored_invoke:
  "invoke (monitored br) (w, thrown) ms =
     (case invoke br w ms of (r, w') \<Rightarrow> (r, w', thrown @ thrown_by r))"
  by (simp add: monitored_def recording_apply)

lemma monitored_force_final:
  "force_final (monitored br) userMessage results (w, thrown) =
     (case force_final br userMessage results w of
        (r, w', evs) \<Rightarrow> (r, (w', thrown @ thrown_by r), evs))"
  by (simp add: force_final_def monitored_invokeWithPrompt split: prod.splits sum.splits)

lemma monitored_tool_loop:
  "tool_loop (monitored br) userMessage ic seen results response (w, thrown) =
     (case tool_loop br userMessage ic seen results response w of
        (r, w', evs) \<Rightarrow> (r, (w', thrown @ thrown_by r), evs))"
proof (induction br userMessage ic seen results response w rule: tool_loop.induct)
  case (1 br userMessage ic seen results response w)
  show ?case
  proof (cases "requests_tools response")
    case False
    then show ?thesis by (simp add: tool_loop_stop)
  next
    case rt: True
    show ?thesis
    proof (cases "call_signature (calls_of response) \<in> seen \<or> \<not> ic < maxIterations")
      case True
      then show ?thesis using rt by (simp add: tool_loop_forced monitored_force_final)
    next
      case False
      then have lt: "ic < maxIterations" and ns: "call_signature (calls_of response) \<notin> seen"
        by auto
      obtain trs w1 where h: "handleToolCalls br (calls_of response) w = (trs, w1)"
        by (cases "handleToolCalls br (calls_of response) w")
      have hm: "handleToolCalls (monitored br) (calls_of response) (w, thrown) = (trs, w1, thrown)"
        by (simp add: monitored_handleToolCalls h)
      obtain out w2 where i: "invoke br w1 (round_messages (ic + 1) trs) = (out, w2)"
        by (cases "invoke br w1 (round_messages (ic + 1) trs)")
      have im: "invoke (monitored br) (w1, thrown) (round_messages (ic + 1) trs) =
                  (out, w2, thrown @ thrown_by out)"
        using i by (simp add: monitored_invoke)
      show ?thesis
      proof (cases out)
        case (Inl e)
        then show ?thesis
          using tool_loop_step[OF rt lt ns h, of userMessage results]
                tool_loop_step[OF rt lt ns hm, of userMessage results] i im
          by simp
      next
        case (Inr r')
        have ih: "tool_loop (monitored br) userMessage (ic + 1)
                    (insert (call_signature (calls_of response)) seen) (results @ trs) r'
                    (w2, thrown) =
              (case tool_loop br userMessage (ic + 1)
                      (insert (call_signature (calls_of response)) seen) (results @ trs) r' w2 of
                 (r, w', evs) \<Rightarrow> (r, (w', thrown @ thrown_by r), evs))"
          using "1.IH"[OF _ ns h[symmetric] i[symmetric] Inr] rt lt by simp
        show ?thesis
          using tool_loop_step[OF rt lt ns h, of userMessage results]
                tool_loop_step[OF rt lt ns hm, of userMessage results] i im Inr ih
          by (simp split: prod.splits)
      qed
    qed
  qed
qed

lemma monitored_first_call:
  "(case invokeWithPrompt (monitored br) (w3, []) userMessage of
      (Inl e, w4) \<Rightarrow> (Inl e, w4, [LLMPrompt userMessage])
    | (Inr response, w4) \<Rightarrow>
        (case tool_loop (monitored br) userMessage 0 {} [] response w4 of
           (res, w5, evs) \<Rightarrow> (res, w5, LLMPrompt userMessage # evs))) =
   (case (case invokeWithPrompt br w3 userMessage of
            (Inl e, w4) \<Rightarrow> (Inl e, w4, [LLMPrompt userMessage])
          | (Inr response, w4) \<Rightarrow>
              (case tool_loop br userMessage 0 {} [] response w4 of
                 (res, w5, evs) \<Rightarrow> (res, w5, LLMPrompt userMessage # evs))) of
      (r, w', evs) \<Rightarrow> (r, (w', thrown_by r), evs))"
proof -
  obtain out w4 where i: "invokeWithPrompt br w3 userMessage = (out, w4)"
    by (cases "invokeWithPrompt br w3 userMessage")
  show ?thesis
  proof (cases out)
    case (Inl e)
    then show ?thesis using i by (simp add: monitored_invokeWithPrompt)
  next
    case (Inr response)
    then show ?thesis
      using i by (simp add: monitored_invokeWithPrompt monitored_tool_loop split: prod.splits)
  qed
qed

lemma monitored_processMessage_try:
  "processMessage_try (monitored br) userMessage (w, []) =
     (case processMessage_try br userMessage w of
        (r, w', evs) \<Rightarrow> (r, (w', thrown_by r), evs))"
proof -
  have d: "detectToolFromPrompt (monitored br) (w, []) userMessage =
      (case detectToolFromPrompt br w userMessage of (r, w') \<Rightarrow> (r, w', thrown_by r))"
    by (simp add: monitored_def recording_apply)
  have g: "\<And>w1 tool. getToolInstructions (monitored br) (w1, []) tool =
      (case getToolInstructions br w1 tool of (r, w') \<Rightarrow> (r, w', thrown_by r))"
    by (simp add: monitored_def recording_apply)
  have s: "\<And>w2 instructions. setSystemPrompt (monitored br) (w2, []) instructions =
      (setSystemPrompt br w2 instructions, [])"
    by (simp add: monitored_def)
  obtain dt w1 where dd: "detectToolFromPrompt br w userMessage = (dt, w1)"
    by (cases "detectToolFromPrompt br w userMessage")
  show ?thesis
  proof (cases dt)
    case (Inl e)
    then show ?thesis using dd by (simp add: processMessage_try_def d)
  next
    case (Inr detectedTool)
    show ?thesis
    proof (cases "detectedTool = None \<or> detectedTool = Some []")
      case True
      then show ?thesis
        using dd Inr by (auto simp add: processMessage_try_def d monitored_first_call)
    next
      case False
      then obtain tool where t: "detectedTool = Some tool" "tool \<noteq> []" by auto
      obtain ins w2 where gg: "getToolInstructions br w1 tool = (ins, w2)"
        by (cases "getToolInstructions br w1 tool")
      show ?thesis
      proof (cases ins)
        case (Inl e)
        then show ?thesis using dd Inr t gg by (simp add: processMessage_try_def d g)
      next
        case i: (Inr instructions)
        show ?thesis
        proof (cases "instructions = None \<or> instructions = Some []")
          case True
          then show ?thesis
            using dd Inr t gg i by (auto simp add: processMessage_try_def d g monitored_first_call)
        next
          case False
          then obtain sp where x: "instructions = Some sp" "sp \<noteq> []" by auto
          show ?thesis
            using dd Inr t gg i x
            by (simp add: processMessage_try_def d g s monitored_first_call)
        qed
      qed
    qed
  qed
qed

text \<open>
  C7. \<open>processMessage\<close> returns a string in every case, and the world and the events
  are those of the unobserved turn. Whenever the tool detection, the instruction lookup
  or a model call (the first one, one inside the loop at any round, or the one on the
  final prompt) throws, that is the only throw of the turn and the string returned is
  \<open>Error processing message: \<close> followed by \<open>error?.message || String(error)\<close>, which
  is the message of an error that has one. When none of them throws, the string
  returned is what the \<open>try\<close> block returns. What a tool call throws is caught inside
  \<open>handleToolCalls\<close> and becomes the output of that call.
\<close>

theorem processMessage_catches:
  "(case processMessage (monitored br) userMessage (w, []) of
      (answer, (w', thrown), evs) \<Rightarrow>
        processMessage br userMessage w = (answer, w', evs) \<and>
        (case thrown of
           [] \<Rightarrow> fst (processMessage_try br userMessage w) = Inr answer
         | e # es \<Rightarrow>
             es = [] \<and> fst (processMessage_try br userMessage w) = Inl e \<and>
             answer = ''Error processing message: '' @ error_text e)) \<and>
   (m \<noteq> [] \<longrightarrow> error_text (JsError n m) = m)"
  by (simp add: processMessage_def monitored_processMessage_try
      split: prod.splits sum.splits)

theorem processMessage_catches_witness:
  "processMessage (monitored flaky_bridge) ''q'' (0, []) =
     (''Error processing message: down'', (3, [JsError ''Error'' ''down'']),
      [LLMPrompt ''q'',
       Dispatch [\<lparr>tc_id = ''call'', tc_name = ''search'', tc_arguments = ''0''\<rparr>],
       LLMInvoke [ToolMsg found],
       Dispatch [\<lparr>tc_id = ''call'', tc_name = ''search'', tc_arguments = ''1''\<rparr>],
       LLMInvoke [ToolMsg found, SystemMsg last_opportunity]]) \<and>
   processMessage flaky_bridge ''q'' 0 =
     (''Error processing message: down'', 3,
      [LLMPrompt ''q'',
       Dispatch [\<lparr>tc_id = ''call'', tc_name = ''search'', tc_arguments = ''0''\<rparr>],
       LLMInvoke [ToolMsg found],
       Dispatch [\<lparr>tc_id = ''call'', tc_name = ''search'', tc_arguments = ''1''\<rparr>],
       LLMInvoke [ToolMsg found, SystemMsg last_opportunity]]) \<and>
   error_text (JsError ''Error'' ''down'') = ''down''"
proof -
  have r: "processMessage (monitored flaky_bridge) ''q'' (0, []) =
     (''Error processing message: down'', (3, [JsError ''Error'' ''down'']),
      [LLMPrompt ''q'',
       Dispatch [\<lparr>tc_id = ''call'', tc_name = ''search'', tc_arguments = ''0''\<rparr>],
       LLMInvoke [ToolMsg found],
       Dispatch [\<lparr>tc_id = ''call'', tc_name = ''search'', tc_arguments = ''1''\<rparr>],
       LLMInvoke [ToolMsg found, SystemMsg last_opportunity]])"
    by code_simp
  have d: "''down'' \<noteq> []" by simp
  note t = processMessage_catches[of flaky_bridge "''q''" 0 "''down''" "''Error''"]
  have 1: "processMessage flaky_bridge ''q'' 0 =
     (''Error processing message: down'', 3,
      [LLMPrompt ''q'',
       Dispatch [\<lparr>tc_id = ''call'', tc_name = ''search'', tc_arguments = ''0''\<rparr>],
       LLMInvoke [ToolMsg found],
       Dispatch [\<lparr>tc_id = ''call'', tc_name = ''search'', tc_arguments = ''1''\<rparr>],
       LLMInvoke [ToolMsg found, SystemMsg last_opportunity]])"
    using t[THEN conjunct1] unfolding r by simp
  have 2: "error_text (JsError ''Error'' ''down'') = ''down''"
    using t[THEN conjunct2] d by blast
  show ?thesis using r 1 2 by blast
qed


section \<open>Properties of the transport and the correlation of responses\<close>

subsection \<open>Reassembly of lines\<close>

lemma respond_buffer_update:
  "respond response m (st\<lparr>responseBuffer := b\<rparr>) = (respond response m st)\<lparr>responseBuffer := b\<rparr>"
  by (simp add: respond_def entry_reject_def entry_resolve_def settle_def clearTimeout_def
      Let_def split: option.splits)

lemma mcp_processMessage_buffer_update:
  "mcp_processMessage parse (st\<lparr>responseBuffer := b\<rparr>) line =
   (mcp_processMessage parse st line)\<lparr>responseBuffer := b\<rparr>"
  by (simp add: mcp_processMessage_def respond_buffer_update
      split: sum.splits json.splits option.splits)

lemma respond_received_update:
  "respond response m (st\<lparr>received := r\<rparr>) = (respond response m st)\<lparr>received := r\<rparr>"
  by (simp add: respond_def entry_reject_def entry_resolve_def settle_def clearTimeout_def
      Let_def split: option.splits)

lemma mcp_processMessage_received_update:
  "mcp_processMessage parse (st\<lparr>received := r\<rparr>) line =
   (mcp_processMessage parse st line)\<lparr>received := r\<rparr>"
  by (simp add: mcp_processMessage_def respond_received_update
      split: sum.splits json.splits option.splits)

lemma received_respond [simp]: "received (respond response m st) = received st"
  by (simp add: respond_def entry_reject_def entry_resolve_def settle_def clearTimeout_def
      Let_def split: option.splits)

lemma received_mcp_processMessage [simp]:
  "received (mcp_processMessage parse st line) = received st"
  by (simp add: mcp_processMessage_def split: sum.splits json.splits option.splits)

lemma indexOf_append:
  "indexOf xs x = Some i \<Longrightarrow> indexOf (xs @ ys) x = Some i"
  by (induction xs arbitrary: i) (auto split: if_splits option.splits)

lemma drain_None: "indexOf (responseBuffer st) 0x0A = None \<Longrightarrow> drain parse st = st"
  by (subst drain.simps) simp

lemma drain_Some:
  "indexOf (responseBuffer st) 0x0A = Some i \<Longrightarrow> drain parse st = drain parse (next_line parse i st)"
  by (subst drain.simps) (simp add: next_line_def Let_def)

lemma responseBuffer_next_line:
  "responseBuffer (next_line parse i st) = drop (i + 1) (responseBuffer st)"
  by (simp add: next_line_def Let_def)

lemma next_line_append:
  assumes "indexOf (responseBuffer st) 0x0A = Some i"
  shows "next_line parse i (st\<lparr>responseBuffer := responseBuffer st @ y\<rparr>) =
         (next_line parse i st)\<lparr>responseBuffer := responseBuffer (next_line parse i st) @ y\<rparr>"
proof -
  have "i < length (responseBuffer st)" using assms by (rule indexOf_less)
  then show ?thesis
    by (simp add: next_line_def Let_def mcp_processMessage_buffer_update
        mcp_processMessage_received_update)
qed

lemma drain_append:
  "drain parse (st\<lparr>responseBuffer := responseBuffer st @ y\<rparr>) =
   drain parse ((drain parse st)\<lparr>responseBuffer := responseBuffer (drain parse st) @ y\<rparr>)"
proof (induction parse st rule: drain.induct)
  case (1 parse st)
  show ?case
  proof (cases "indexOf (responseBuffer st) 0x0A")
    case None
    then show ?thesis by (simp add: drain_None)
  next
    case (Some i)
    have a: "indexOf (responseBuffer (st\<lparr>responseBuffer := responseBuffer st @ y\<rparr>)) 0x0A = Some i"
      using Some by (simp add: indexOf_append)
    have IH: "drain parse ((next_line parse i st)\<lparr>responseBuffer := responseBuffer (next_line parse i st) @ y\<rparr>) =
      drain parse ((drain parse (next_line parse i st))\<lparr>responseBuffer :=
         responseBuffer (drain parse (next_line parse i st)) @ y\<rparr>)"
      unfolding next_line_def Let_def by (rule "1.IH"[OF Some refl refl])
    show ?thesis
      using drain_Some[OF a, of parse] drain_Some[OF Some, of parse] next_line_append[OF Some, of parse y] IH
      by simp
  qed
qed

lemma handleText_append:
  "handleText parse (handleText parse st x) y = handleText parse st (x @ y)"
  using drain_append[of parse "st\<lparr>responseBuffer := responseBuffer st @ x\<rparr>" y]
  by (simp add: handleText_def)

lemma handleText_chunks:
  "foldl (handleText parse) (handleText parse st c) cs = handleText parse st (c @ concat cs)"
  by (induction cs arbitrary: c) (simp_all add: handleText_append)

lemma handleResponse_chunks:
  "concat (map toString (c # cs)) = toString (concat (c # cs)) \<Longrightarrow>
   foldl (handleResponse parse) (handleResponse parse st c) cs =
   handleResponse parse st (concat (c # cs))"
proof -
  assume a: "concat (map toString (c # cs)) = toString (concat (c # cs))"
  have f: "foldl (handleResponse parse) s cs = foldl (handleText parse) s (map toString cs)" for s
    by (induction cs arbitrary: s) (simp_all add: handleResponse_def)
  show ?thesis
    using a handleText_chunks[of parse st "toString c" "map toString cs"]
    by (simp add: f handleResponse_def)
qed

lemma utf8_decode_ascii:
  "\<forall>b \<in> set bs. b < 0x80 \<Longrightarrow> utf8_decode bs = bs"
  by (induction bs) simp_all

lemma toString_ascii:
  assumes "\<forall>b \<in> set data. b < 0x80"
  shows "toString data = map unat data"
proof -
  have n: "\<forall>n \<in> set (map unat data). n < 0x80"
    using assms by (auto simp: word_less_nat_alt)
  then have d: "utf8_decode (map unat data) = map unat data" by (rule utf8_decode_ascii)
  have u: "concat (map utf16_units ns) = ns" if "\<forall>n \<in> set ns. n < 0x80" for ns
    using that by (induction ns) (simp_all add: utf16_units_def)
  show ?thesis unfolding toString_def d by (rule u[OF n])
qed

lemma ascii_chunks_reassemble:
  assumes "\<forall>chunk \<in> set (c # cs). \<forall>b \<in> set chunk. b < 0x80"
  shows "foldl (handleResponse parse) (handleResponse parse st c) cs =
         handleResponse parse st (concat (c # cs))"
proof -
  have "concat (map toString xs) = toString (concat xs)"
    if "\<forall>chunk \<in> set xs. \<forall>b \<in> set chunk. b < 0x80" for xs
  proof -
    have "\<forall>b \<in> set (concat xs). b < 0x80" using that by auto
    then have "toString (concat xs) = map unat (concat xs)" by (rule toString_ascii)
    moreover have "map toString xs = map (map unat) xs"
      using that by (intro map_cong refl toString_ascii) auto
    ultimately show ?thesis by (simp only: map_concat)
  qed
  from this[OF assms] show ?thesis by (rule handleResponse_chunks)
qed


lemma drain_no_newline: "indexOf (responseBuffer (drain parse st)) 0x0A = None"
proof (induction parse st rule: drain.induct)
  case (1 parse st)
  show ?case
  proof (cases "indexOf (responseBuffer st) 0x0A")
    case None
    then show ?thesis by (simp add: drain_None)
  next
    case (Some i)
    then show ?thesis
      using "1.IH"[OF Some refl refl] drain_Some[OF Some, of parse]
      unfolding next_line_def Let_def by simp
  qed
qed

lemma received_handleText_line:
  assumes "indexOf b 0x0A = None" "trim b \<noteq> []"
  shows "received (handleText parse (st\<lparr>responseBuffer := []\<rparr>) (b @ [0x0A])) = received st @ [trim b]"
proof -
  have i: "indexOf (b @ [0x0A]) (0x0A::nat) = Some (length b)"
    using assms(1) by (induction b) (auto split: if_splits option.splits)
  have "drain parse (st\<lparr>responseBuffer := b @ [0x0A]\<rparr>) =
        drain parse (next_line parse (length b) (st\<lparr>responseBuffer := b @ [0x0A]\<rparr>))"
    by (rule drain_Some) (simp add: i)
  also have "\<dots> = next_line parse (length b) (st\<lparr>responseBuffer := b @ [0x0A]\<rparr>)"
    by (rule drain_None) (simp add: responseBuffer_next_line)
  finally show ?thesis using assms(2)
    by (simp add: handleText_def next_line_def Let_def)
qed


text \<open>
  C3. On decoded text the reassembly holds: feeding chunks of text one at a time leaves
  the client in the same state, with the same lines handed to \<open>processMessage\<close>, as
  feeding their concatenation (\<open>handleText_chunks\<close>), so it holds for chunks of bytes
  that each decode on their own to their part of the text (\<open>handleResponse_chunks\<close>),
  as chunks of ASCII bytes do (\<open>ascii_chunks_reassemble\<close>).
  It fails for bytes: each chunk is decoded by \<open>data.toString()\<close> before it is
  appended, so a chunk boundary inside a multi-byte character turns both halves into
  U+FFFD. The response below carries the two bytes of U+00E9; split between them, the
  line handed to \<open>JSON.parse\<close> holds two U+FFFD instead.
\<close>

theorem split_character_is_garbled:
  \<open>received (handleResponse parse
       (handleResponse parse new_client (map of_char ''{"id":1,"result":"'' @ [0xC3]))
       ([0xA9] @ wire ''"}''))
     = [ascii ''{"id":1,"result":"'' @ [0xFFFD, 0xFFFD] @ ascii ''"}''] \<and>
   received (handleResponse parse new_client
       ((map of_char ''{"id":1,"result":"'' @ [0xC3]) @ ([0xA9] @ wire ''"}'')))
     = [ascii ''{"id":1,"result":"'' @ [0xE9] @ ascii ''"}'']\<close>
proof -
  let ?a = \<open>ascii ''{"id":1,"result":"''\<close>
  let ?z = \<open>ascii ''"}''\<close>
  have t1: \<open>toString (map of_char ''{"id":1,"result":"'' @ [0xC3]) = ?a @ [0xFFFD]\<close>
    by (simp add: toString_def ascii_def utf16_units_def)
  have t2: \<open>toString ([0xA9] @ wire ''"}'') = [0xFFFD] @ ?z @ [0x0A]\<close>
    by (simp add: toString_def ascii_def utf16_units_def wire_def)
  have t3: \<open>toString ((map of_char ''{"id":1,"result":"'' @ [0xC3]) @ ([0xA9] @ wire ''"}''))
      = ?a @ [0xE9] @ ?z @ [0x0A]\<close>
    by (simp add: toString_def ascii_def utf16_units_def wire_def continuation_def)
  have n: "new_client\<lparr>responseBuffer := []\<rparr> = new_client" by (simp add: new_client_def)
  have b: "responseBuffer new_client = []" by (simp add: new_client_def)
  have s1: \<open>handleResponse parse new_client (map of_char ''{"id":1,"result":"'' @ [0xC3])
      = new_client\<lparr>responseBuffer := ?a @ [0xFFFD]\<rparr>\<close>
    unfolding handleResponse_def handleText_def t1 b append_Nil
    by (rule drain_None) (simp add: ascii_def)
  have "handleText parse (new_client\<lparr>responseBuffer := ?a @ [0xFFFD]\<rparr>) ([0xFFFD] @ ?z @ [0x0A])
      = handleText parse (new_client\<lparr>responseBuffer := []\<rparr>) ((?a @ [0xFFFD, 0xFFFD] @ ?z) @ [0x0A])"
    by (simp add: handleText_def)
  then have r1: "received (handleText parse (new_client\<lparr>responseBuffer := ?a @ [0xFFFD]\<rparr>) ([0xFFFD] @ ?z @ [0x0A]))
      = [?a @ [0xFFFD, 0xFFFD] @ ?z]"
    using received_handleText_line[of "?a @ [0xFFFD, 0xFFFD] @ ?z" parse new_client]
    by (simp add: ascii_def trim_def js_space_def new_client_def)
  have "handleText parse new_client (?a @ [0xE9] @ ?z @ [0x0A])
      = handleText parse (new_client\<lparr>responseBuffer := []\<rparr>) ((?a @ [0xE9] @ ?z) @ [0x0A])"
    by (simp add: n)
  then have r2: "received (handleText parse new_client (?a @ [0xE9] @ ?z @ [0x0A]))
      = [?a @ [0xE9] @ ?z]"
    using received_handleText_line[of "?a @ [0xE9] @ ?z" parse new_client]
    by (simp add: ascii_def trim_def js_space_def new_client_def)
  show ?thesis
    unfolding s1 unfolding handleResponse_def t2 t3
    by (rule conjI[OF r1 r2])
qed

subsection \<open>Responses and timeouts\<close>

lemma unmatched_response_ignored:
  "parse line = Inr response \<Longrightarrow>
   find (\<lambda>x. strict_eq (msg_id (message x)) (field response ''id'')) (messageQueue st) = None \<Longrightarrow>
   mcp_processMessage parse st line = st"
  by (cases response) (simp_all add: mcp_processMessage_def)

lemma matching_result_resolves:
  assumes "parse line = Inr response"
    "find (\<lambda>x. strict_eq (msg_id (message x)) (field response ''id'')) (messageQueue st) = Some m"
    "\<not> truthy (field response ''error'')" "field response ''result'' = Some v"
  shows "mcp_processMessage parse st line =
     st\<lparr>timers := (timers st)(promise m := None),
        settlements := settlements st @ [(promise m, Resolved (Some v))],
        messageQueue := filter (\<lambda>x. \<not> strict_eq (msg_id (message x)) (field response ''id''))
                          (messageQueue st)\<rparr>"
proof -
  have "response \<noteq> JNull" using assms(4) by auto
  then show ?thesis using assms
    by (cases response)
       (simp_all add: mcp_processMessage_def respond_def entry_resolve_def settle_def
          clearTimeout_def Let_def)
qed

lemma matching_error_rejects:
  assumes "parse line = Inr response"
    "find (\<lambda>x. strict_eq (msg_id (message x)) (field response ''id'')) (messageQueue st) = Some m"
    "field response ''error'' = Some err" "truthy (Some err)"
  shows "mcp_processMessage parse st line =
     st\<lparr>timers := (timers st)(promise m := None),
        settlements := settlements st @ [(promise m, Rejected (JsError ''Error'' (error_message_of err)))],
        messageQueue := filter (\<lambda>x. \<not> strict_eq (msg_id (message x)) (field response ''id''))
                          (messageQueue st)\<rparr>"
proof -
  have "response \<noteq> JNull" using assms(3) by auto
  then show ?thesis using assms
    by (cases response)
       (simp_all add: mcp_processMessage_def respond_def entry_reject_def settle_def
          clearTimeout_def Let_def)
qed

lemma second_response_ignored:
  assumes "parse line' = Inr response'" "field response' ''id'' = field response ''id''"
  shows "mcp_processMessage parse
           (st\<lparr>messageQueue := filter (\<lambda>x. \<not> strict_eq (msg_id (message x)) (field response ''id''))
                          (messageQueue st)\<rparr>) line' =
         st\<lparr>messageQueue := filter (\<lambda>x. \<not> strict_eq (msg_id (message x)) (field response ''id''))
                          (messageQueue st)\<rparr>"
  by (rule unmatched_response_ignored[of parse line' response']) (simp_all add: assms find_None_iff)

lemma handleText_one_line:
  assumes "indexOf b 0x0A = None" "trim b \<noteq> []" "responseBuffer st = []"
  shows "handleText parse st (b @ [0x0A]) =
         mcp_processMessage parse (st\<lparr>received := received st @ [trim b]\<rparr>) (trim b)"
proof -
  have i: "indexOf (b @ [0x0A]) (0x0A::nat) = Some (length b)"
    using assms(1) by (induction b) (auto split: if_splits option.splits)
  have e: "st\<lparr>responseBuffer := []\<rparr> = st" using assms(3) by simp
  have "drain parse (st\<lparr>responseBuffer := b @ [0x0A]\<rparr>) =
        drain parse (next_line parse (length b) (st\<lparr>responseBuffer := b @ [0x0A]\<rparr>))"
    by (rule drain_Some) (simp add: i)
  also have "\<dots> = next_line parse (length b) (st\<lparr>responseBuffer := b @ [0x0A]\<rparr>)"
    by (rule drain_None) (simp add: responseBuffer_next_line)
  also have "\<dots> = mcp_processMessage parse (st\<lparr>received := received st @ [trim b]\<rparr>) (trim b)"
    using assms(2) e by (simp add: next_line_def Let_def mcp_processMessage_buffer_update
        mcp_processMessage_received_update)
  finally show ?thesis using assms(3) by (simp add: handleText_def)
qed

lemma waiting_client_eq:
  "waiting_client =
     open_client\<lparr>nextPromise := 1, timers := [0 \<mapsto> (message_timeout_ms, example_request)],
       messageQueue := [\<lparr>message = example_request, promise = 0\<rparr>],
       written := [example_request]\<rparr>"
  by (simp add: waiting_client_def sendMessage_def open_client_def new_client_def
      example_request_def Let_def)


text \<open>
  C4. A response that bears the id of a pending request and carries a result resolves
  it, one that carries an error rejects it, either removes the entry, and a response
  whose id matches no entry changes nothing (the lemmas above). A response that bears
  the id and carries neither an error nor a result invokes no continuation and leaves
  the entry in the queue with its timer armed: the argument of \<open>logger.debug\<close> throws
  before \<open>resolve\<close> is reached. The last conjunct is the same request answered with
  a result.
\<close>

theorem response_without_result_is_dropped:
  \<open>map (\<lambda>q. (msg_id (message q), promise q)) (messageQueue waiting_client) = [(Some 1, 0)] \<and>
   settlements (handleResponse line_parse waiting_client (wire ''{"jsonrpc":"2.0","id":1}'')) = [] \<and>
   messageQueue (handleResponse line_parse waiting_client (wire ''{"jsonrpc":"2.0","id":1}''))
     = messageQueue waiting_client \<and>
   timers (handleResponse line_parse waiting_client (wire ''{"jsonrpc":"2.0","id":1}'')) 0
     = Some (message_timeout_ms, example_request) \<and>
   received (handleResponse line_parse waiting_client (wire ''{"jsonrpc":"2.0","id":1}''))
     = [ascii ''{"jsonrpc":"2.0","id":1}''] \<and>
   settlements (handleResponse line_parse waiting_client
                  (wire ''{"jsonrpc":"2.0","id":1,"result":"ok"}''))
     = [(0, Resolved (Some (JStr ''ok'')))]\<close>
proof -
  let ?L1 = \<open>ascii ''{"jsonrpc":"2.0","id":1}''\<close>
  let ?L2 = \<open>ascii ''{"jsonrpc":"2.0","id":1,"result":"ok"}''\<close>
  have w1: \<open>toString (wire ''{"jsonrpc":"2.0","id":1}'') = ?L1 @ [0x0A]\<close>
    by (simp add: toString_def wire_def ascii_def utf16_units_def)
  have w2: \<open>toString (wire ''{"jsonrpc":"2.0","id":1,"result":"ok"}'') = ?L2 @ [0x0A]\<close>
    by (simp add: toString_def wire_def ascii_def utf16_units_def)
  have b: "responseBuffer waiting_client = []" "received waiting_client = []"
    by (simp_all add: waiting_client_eq open_client_def new_client_def)
  have t1: "indexOf ?L1 0x0A = None" "trim ?L1 = ?L1"
    by (simp_all add: ascii_def trim_def js_space_def)
  have t2: "indexOf ?L2 0x0A = None" "trim ?L2 = ?L2"
    by (simp_all add: ascii_def trim_def js_space_def)
  have h1: \<open>handleResponse line_parse waiting_client (wire ''{"jsonrpc":"2.0","id":1}'')
      = mcp_processMessage line_parse (waiting_client\<lparr>received := [?L1]\<rparr>) ?L1\<close>
    unfolding handleResponse_def w1
    using handleText_one_line[of ?L1 waiting_client line_parse] t1 b by (simp add: ascii_def)
  have h2: \<open>handleResponse line_parse waiting_client (wire ''{"jsonrpc":"2.0","id":1,"result":"ok"}'')
      = mcp_processMessage line_parse (waiting_client\<lparr>received := [?L2]\<rparr>) ?L2\<close>
    unfolding handleResponse_def w2
    using handleText_one_line[of ?L2 waiting_client line_parse] t2 b by (simp add: ascii_def)
  have p1: "mcp_processMessage line_parse (waiting_client\<lparr>received := [?L1]\<rparr>) ?L1
      = waiting_client\<lparr>received := [?L1]\<rparr>"
    by (simp add: mcp_processMessage_def line_parse_def ascii_def waiting_client_eq
        example_request_def respond_def)
  have p2: "settlements (mcp_processMessage line_parse (waiting_client\<lparr>received := [?L2]\<rparr>) ?L2)
      = [(0, Resolved (Some (JStr ''ok'')))]"
    by (simp add: mcp_processMessage_def line_parse_def ascii_def waiting_client_eq
        example_request_def respond_def entry_resolve_def settle_def clearTimeout_def
        open_client_def new_client_def)
  show ?thesis
    unfolding h1 h2 p1 p2
    by (simp add: waiting_client_eq open_client_def new_client_def example_request_def)
qed

subsection \<open>Invariants of the event loop\<close>

lemma drain_invariant:
  assumes "I st"
    and "\<And>s line. I s \<Longrightarrow> I (mcp_processMessage parse (s\<lparr>received := received s @ [line]\<rparr>) line)"
    and "\<And>s b. I s \<Longrightarrow> I (s\<lparr>responseBuffer := b\<rparr>)"
  shows "I (drain parse st)"
  using assms
proof (induction parse st rule: drain.induct)
  case (1 parse st)
  show ?case
  proof (cases "indexOf (responseBuffer st) 0x0A")
    case None
    then show ?thesis using "1.prems"(1) by (simp add: drain_None)
  next
    case (Some i)
    let ?s1 = "st\<lparr>responseBuffer := drop (i + 1) (responseBuffer st)\<rparr>"
    let ?l = "trim (take i (responseBuffer st))"
    have s1: "I ?s1" using "1.prems"(1) by (rule "1.prems"(3))
    have "I (mcp_processMessage parse (?s1\<lparr>received := received ?s1 @ [?l]\<rparr>) ?l)"
      using s1 by (rule "1.prems"(2))
    then have "I (next_line parse i st)"
      using s1 by (simp add: next_line_def Let_def)
    then have "I (drain parse (next_line parse i st))"
      unfolding next_line_def Let_def
      by (rule "1.IH"[OF Some refl refl _ "1.prems"(2) "1.prems"(3)])
    then show ?thesis by (simp add: drain_Some[OF Some])
  qed
qed

lemma handleResponse_invariant:
  assumes "I st"
    and line: "\<And>s line. I s \<Longrightarrow> I (mcp_processMessage parse (s\<lparr>received := received s @ [line]\<rparr>) line)"
    and buf: "\<And>s b. I s \<Longrightarrow> I (s\<lparr>responseBuffer := b\<rparr>)"
  shows "I (handleResponse parse st data)"
  unfolding handleResponse_def handleText_def
  by (rule drain_invariant[where I = I]) (auto intro: assms)


lemma findIndex_Some: "findIndex Q xs = Some idx \<Longrightarrow> idx < length xs \<and> Q (xs ! idx)"
  by (induction xs arbitrary: idx) (auto split: if_splits option.splits)

lemma filter_remove_nth:
  assumes "idx < length xs" "\<not> P (xs ! idx)"
  shows "filter P (take idx xs @ drop (idx + 1) xs) = filter P xs"
proof -
  have "xs = take idx xs @ xs ! idx # drop (Suc idx) xs"
    using assms(1) by (rule id_take_nth_drop)
  then have "filter P xs = filter P (take idx xs @ xs ! idx # drop (Suc idx) xs)" by simp
  then show ?thesis using assms(2) by simp
qed

lemma findIndex_single:
  "filter P xs = [x] \<Longrightarrow>
   \<exists>idx. findIndex P xs = Some idx \<and> take idx xs @ drop (idx + 1) xs = filter (\<lambda>y. \<not> P y) xs"
proof (induction xs)
  case Nil
  then show ?case by simp
next
  case (Cons a xs)
  show ?case
  proof (cases "P a")
    case True
    then have "filter P xs = []" using Cons.prems by simp
    then have "filter (\<lambda>y. \<not> P y) xs = xs" by (simp add: filter_empty_conv)
    then show ?thesis using True by simp
  next
    case False
    then have "filter P xs = [x]" using Cons.prems by simp
    from Cons.IH[OF this] show ?thesis using False by auto
  qed
qed

text \<open>What each operation does to the state.\<close>

lemma mcp_processMessage_cases:
  "mcp_processMessage parse s line = s \<or>
   (\<exists>r m out. parse line = Inr r \<and> m \<in> set (messageQueue s) \<and>
      strict_eq (msg_id (message m)) (field r ''id'') \<and>
      find (\<lambda>x. strict_eq (msg_id (message x)) (field r ''id'')) (messageQueue s) = Some m \<and>
      (truthy (field r ''error'') \<and> (\<exists>e. out = Rejected e) \<or>
       \<not> truthy (field r ''error'') \<and> (\<exists>v. field r ''result'' = Some v \<and> out = Resolved (Some v))) \<and>
      mcp_processMessage parse s line =
        s\<lparr>timers := (timers s)(promise m := None),
          settlements := settlements s @ [(promise m, out)],
          messageQueue := filter (\<lambda>x. \<not> strict_eq (msg_id (message x)) (field r ''id''))
                            (messageQueue s)\<rparr>)"
proof (cases "parse line")
  case (Inl e)
  then show ?thesis by (simp add: mcp_processMessage_def)
next
  case (Inr r)
  show ?thesis
  proof (cases "find (\<lambda>x. strict_eq (msg_id (message x)) (field r ''id'')) (messageQueue s)")
    case None
    then show ?thesis using Inr unmatched_response_ignored[of parse line r s] by simp
  next
    case (Some m)
    then have m: "m \<in> set (messageQueue s)" "strict_eq (msg_id (message m)) (field r ''id'')"
      by (auto simp: find_Some_iff)
    show ?thesis
    proof (cases "truthy (field r ''error'')")
      case True
      then obtain err where err: "field r ''error'' = Some err" "truthy (Some err)"
        by (cases "field r ''error''") auto
      from matching_error_rejects[of parse line r s m err] m Inr Some True err
      show ?thesis by blast
    next
      case False
      show ?thesis
      proof (cases "field r ''result''")
        case None
        then have "mcp_processMessage parse s line = s"
          using Inr Some False
          by (cases r) (simp_all add: mcp_processMessage_def respond_def)
        then show ?thesis by simp
      next
        case v: (Some v)
        from matching_result_resolves[of parse line r s m v] m Inr Some False v
        show ?thesis by blast
      qed
    qed
  qed
qed

lemma sendMessage_cases:
  "sendMessage s msg =
     (nextPromise s,
      if stdin s = None \<or> stdout s = None
      then s\<lparr>nextPromise := nextPromise s + 1,
             settlements := settlements s @
               [(nextPromise s, Rejected (JsError ''Error'' ''[MCP Client] Connection not established''))]\<rparr>
      else s\<lparr>nextPromise := nextPromise s + 1,
             timers := (timers s)(nextPromise s \<mapsto> (message_timeout_ms, msg)),
             messageQueue :=
               (if msg_id msg \<noteq> None then messageQueue s @ [\<lparr>message = msg, promise = nextPromise s\<rparr>]
                else messageQueue s),
             written := written s @ [msg]\<rparr>)"
  by (simp add: sendMessage_def Let_def settle_def)

lemma write_callback_cases:
  "write_callback s p msg error =
     (if error = None \<and> msg_id msg \<noteq> None then s
      else s\<lparr>timers := (timers s)(p := None),
             settlements := settlements s @
               [(p, case error of Some e \<Rightarrow> Rejected e | None \<Rightarrow> Resolved None)]\<rparr>)"
  by (simp add: write_callback_def settle_def clearTimeout_def split: option.splits)

lemma timeout_fires_cases:
  "timeout_fires s p = s \<and> timers s p = None \<or>
   (\<exists>d m. timers s p = Some (d, m) \<and>
      (timeout_fires s p = s\<lparr>timers := (timers s)(p := None)\<rparr> \<and>
         findIndex (\<lambda>x. msg_id (message x) = msg_id m) (messageQueue s) = None \<or>
       (\<exists>idx. findIndex (\<lambda>x. msg_id (message x) = msg_id m) (messageQueue s) = Some idx \<and>
          timeout_fires s p =
            s\<lparr>timers := (timers s)(p := None),
              messageQueue := take idx (messageQueue s) @ drop (idx + 1) (messageQueue s),
              settlements := settlements s @ [(p, Rejected (timeout_error m))]\<rparr>)))"
  by (cases "timers s p")
     (auto simp: timeout_fires_def Let_def settle_def split: option.splits)

subsection \<open>A request in flight\<close>

lemma map_of_append_other:
  "p' \<noteq> p \<Longrightarrow> map_of (xs @ [(p', out)]) p = map_of xs p"
  "p' \<noteq> p \<Longrightarrow> ([p' \<mapsto> out] ++ m) p = m p"
  by (simp_all add: map_add_def split: option.splits)

lemma map_of_append_settled:
  "map_of xs p = Some out \<Longrightarrow> map_of (xs @ ys) p = Some out"
  by (simp add: map_add_def split: option.splits)

lemma in_flight_frame:
  assumes "in_flight p msg s"
    and "nextMessageId s \<le> nextMessageId s'" "nextPromise s \<le> nextPromise s'"
    and "filter (\<lambda>q. msg_id (message q) = msg_id msg \<or> promise q = p) (messageQueue s') =
         filter (\<lambda>q. msg_id (message q) = msg_id msg \<or> promise q = p) (messageQueue s)"
    and "timers s' p = timers s p"
    and "\<And>p' d m. timers s' p' = Some (d, m) \<Longrightarrow> msg_id m = msg_id msg \<Longrightarrow>
           timers s p' = Some (d, m)"
    and "promise_state s' p = promise_state s p"
  shows "in_flight p msg s'"
proof -
  obtain i where i: "msg_id msg = Some i" "i < nextMessageId s"
    using assms(1) unfolding in_flight_def by blast
  have a: "p < nextPromise s"
    "filter (\<lambda>q. msg_id (message q) = msg_id msg \<or> promise q = p) (messageQueue s)
       = [\<lparr>message = msg, promise = p\<rparr>]"
    "timers s p = Some (message_timeout_ms, msg)"
    "promise_state s p = None"
    using assms(1) unfolding in_flight_def by blast+
  have u: "\<And>p' d m. timers s p' = Some (d, m) \<Longrightarrow> msg_id m = msg_id msg \<Longrightarrow> p' = p"
    using assms(1) unfolding in_flight_def by blast
  have 1: "\<exists>i. msg_id msg = Some i \<and> i < nextMessageId s'"
    using i assms(2) by (intro exI[of _ i]) simp
  have 2: "p < nextPromise s'" using a(1) assms(3) by simp
  have 3: "filter (\<lambda>q. msg_id (message q) = msg_id msg \<or> promise q = p) (messageQueue s')
       = [\<lparr>message = msg, promise = p\<rparr>]"
    using a(2) assms(4) by simp
  have 4: "timers s' p = Some (message_timeout_ms, msg)" using a(3) assms(5) by simp
  have 5: "\<forall>p' d m. timers s' p' = Some (d, m) \<and> msg_id m = msg_id msg \<longrightarrow> p' = p"
    using assms(6) u by blast
  have 6: "promise_state s' p = None" using a(4) assms(7) by simp
  show ?thesis unfolding in_flight_def using 1 2 3 4 5 6 by blast
qed

lemma in_flight_entry:
  assumes "in_flight p msg s" "q \<in> set (messageQueue s)"
    "msg_id (message q) = msg_id msg \<or> promise q = p"
  shows "q = \<lparr>message = msg, promise = p\<rparr>"
proof -
  have f: "filter (\<lambda>q. msg_id (message q) = msg_id msg \<or> promise q = p) (messageQueue s)
      = [\<lparr>message = msg, promise = p\<rparr>]"
    using assms(1) by (simp add: in_flight_def)
  have "q \<in> set (filter (\<lambda>q. msg_id (message q) = msg_id msg \<or> promise q = p) (messageQueue s))"
    using assms(2,3) by simp
  then have "q \<in> set [\<lparr>message = msg, promise = p\<rparr>]" unfolding f .
  then show ?thesis by simp
qed

lemma in_flight_queued:
  "in_flight p msg s \<Longrightarrow> \<lparr>message = msg, promise = p\<rparr> \<in> set (messageQueue s)"
proof -
  assume "in_flight p msg s"
  then have f: "filter (\<lambda>q. msg_id (message q) = msg_id msg \<or> promise q = p) (messageQueue s)
      = [\<lparr>message = msg, promise = p\<rparr>]"
    by (simp add: in_flight_def)
  have "\<lparr>message = msg, promise = p\<rparr> \<in>
      set (filter (\<lambda>q. msg_id (message q) = msg_id msg \<or> promise q = p) (messageQueue s))"
    unfolding f by simp
  then show ?thesis by simp
qed

lemma promise_state_append:
  "promise_state (s\<lparr>settlements := settlements s @ [(p', out)]\<rparr>) p =
     (case promise_state s p of None \<Rightarrow> (if p' = p then Some out else None) | Some x \<Rightarrow> Some x)"
  by (simp add: promise_state_def map_add_def split: option.splits)

lemma in_flight_line:
  assumes "in_flight p msg s" "\<not> answers parse (msg_id msg) line"
  shows "in_flight p msg (mcp_processMessage parse s line)"
proof -
  from mcp_processMessage_cases[of parse s line]
  consider "mcp_processMessage parse s line = s"
    | r m out where "parse line = Inr r" "m \<in> set (messageQueue s)"
        "strict_eq (msg_id (message m)) (field r ''id'')"
        "mcp_processMessage parse s line =
          s\<lparr>timers := (timers s)(promise m := None),
            settlements := settlements s @ [(promise m, out)],
            messageQueue := filter (\<lambda>x. \<not> strict_eq (msg_id (message x)) (field r ''id''))
                              (messageQueue s)\<rparr>"
    by blast
  then show ?thesis
  proof cases
    case 1
    then show ?thesis using assms(1) by simp
  next
    case 2
    have na: "\<not> strict_eq (msg_id msg) (field r ''id'')"
      using assms(2) 2(1) by (simp add: answers_def)
    then have "msg_id (message m) \<noteq> msg_id msg" using 2(3) by auto
    have pm: "promise m \<noteq> p"
    proof
      assume "promise m = p"
      then have "m = \<lparr>message = msg, promise = p\<rparr>"
        using in_flight_entry[OF assms(1) 2(2)] by simp
      then have "message m = msg" by simp
      then show False using \<open>msg_id (message m) \<noteq> msg_id msg\<close> by simp
    qed
    let ?P = "\<lambda>q. msg_id (message q) = msg_id msg \<or> promise q = p"
    let ?Q = "\<lambda>x. \<not> strict_eq (msg_id (message x)) (field r ''id'')"
    have f: "filter ?P (messageQueue s) = [\<lparr>message = msg, promise = p\<rparr>]"
      using assms(1) by (simp add: in_flight_def)
    have "filter ?P (filter ?Q (messageQueue s)) = filter ?Q (filter ?P (messageQueue s))"
      by (simp add: conj_commute)
    also have "\<dots> = filter ?P (messageQueue s)" using na by (simp add: f)
    finally have q: "filter ?P (filter ?Q (messageQueue s)) = filter ?P (messageQueue s)" .
    show ?thesis
      unfolding 2(4)
      by (rule in_flight_frame[OF assms(1)])
         (use pm q in \<open>auto simp: promise_state_def map_of_append_other split: if_splits\<close>)
  qed
qed

lemma in_flight_buffer [simp]:
  "in_flight p msg (s\<lparr>responseBuffer := b\<rparr>) = in_flight p msg s"
  "in_flight p msg (s\<lparr>received := r\<rparr>) = in_flight p msg s"
  by (simp_all add: in_flight_def promise_state_def)

lemma received_handleResponse_grows:
  "\<exists>ys. received (handleResponse parse st data) = received st @ ys"
proof -
  have "\<exists>ys. received (handleResponse parse st data) = received st @ ys"
    by (rule handleResponse_invariant[where I = "\<lambda>s. \<exists>ys. received s = received st @ ys"]) auto
  then show ?thesis .
qed

lemma in_flight_chunk:
  assumes "in_flight p msg st"
    "\<forall>line \<in> set (drop (length (received st)) (received (handleResponse parse st data))).
        \<not> answers parse (msg_id msg) line"
  shows "in_flight p msg (handleResponse parse st data)"
proof -
  let ?n = "length (received st)"
  let ?I = "\<lambda>s. ?n \<le> length (received s) \<and>
     ((\<forall>line \<in> set (drop ?n (received s)). \<not> answers parse (msg_id msg) line) \<longrightarrow>
      in_flight p msg s)"
  have "?I (handleResponse parse st data)"
  proof (rule handleResponse_invariant[where I = ?I])
    show "?I st" using assms(1) by simp
  next
    fix s line
    assume i: "?I s"
    show "?I (mcp_processMessage parse (s\<lparr>received := received s @ [line]\<rparr>) line)"
    proof (intro conjI impI)
      show "?n \<le> length (received (mcp_processMessage parse (s\<lparr>received := received s @ [line]\<rparr>) line))"
        using i by simp
      assume a: "\<forall>line \<in> set (drop ?n
          (received (mcp_processMessage parse (s\<lparr>received := received s @ [line]\<rparr>) line))).
          \<not> answers parse (msg_id msg) line"
      then have "in_flight p msg s" "\<not> answers parse (msg_id msg) line"
        using i by auto
      then show "in_flight p msg (mcp_processMessage parse (s\<lparr>received := received s @ [line]\<rparr>) line)"
        by (intro in_flight_line) simp_all
    qed
  next
    fix s b
    assume "?I s"
    then show "?I (s\<lparr>responseBuffer := b\<rparr>)" by simp
  qed
  then show ?thesis using assms(2) by simp
qed

lemma sendMessage_fields:
  "fst (sendMessage s msg) = nextPromise s"
  "nextPromise (snd (sendMessage s msg)) = nextPromise s + 1"
  "nextMessageId (snd (sendMessage s msg)) = nextMessageId s"
  "messageQueue (snd (sendMessage s msg)) =
     (if stdin s = None \<or> stdout s = None \<or> msg_id msg = None then messageQueue s
      else messageQueue s @ [\<lparr>message = msg, promise = nextPromise s\<rparr>])"
  "timers (snd (sendMessage s msg)) =
     (if stdin s = None \<or> stdout s = None then timers s
      else (timers s)(nextPromise s \<mapsto> (message_timeout_ms, msg)))"
  "settlements (snd (sendMessage s msg)) =
     (if stdin s = None \<or> stdout s = None
      then settlements s @
             [(nextPromise s, Rejected (JsError ''Error'' ''[MCP Client] Connection not established''))]
      else settlements s)"
  "written (snd (sendMessage s msg)) =
     (if stdin s = None \<or> stdout s = None then written s else written s @ [msg])"
  "received (snd (sendMessage s msg)) = received s"
  "responseBuffer (snd (sendMessage s msg)) = responseBuffer s"
  "process (snd (sendMessage s msg)) = process s"
  "stdin (snd (sendMessage s msg)) = stdin s"
  "stdout (snd (sendMessage s msg)) = stdout s"
  by (simp_all add: sendMessage_cases)

lemma send_request_fields:
  "fst (send_request s rpc_method rpc_params) = nextPromise s"
  "nextPromise (snd (send_request s rpc_method rpc_params)) = nextPromise s + 1"
  "nextMessageId (snd (send_request s rpc_method rpc_params)) = nextMessageId s + 1"
  "messageQueue (snd (send_request s rpc_method rpc_params)) =
     (if stdin s = None \<or> stdout s = None then messageQueue s
      else messageQueue s @
        [\<lparr>message = \<lparr>msg_id = Some (nextMessageId s), msg_method = rpc_method, msg_params = rpc_params\<rparr>,
          promise = nextPromise s\<rparr>])"
  "timers (snd (send_request s rpc_method rpc_params)) =
     (if stdin s = None \<or> stdout s = None then timers s
      else (timers s)(nextPromise s \<mapsto>
        (message_timeout_ms,
         \<lparr>msg_id = Some (nextMessageId s), msg_method = rpc_method, msg_params = rpc_params\<rparr>)))"
  "settlements (snd (send_request s rpc_method rpc_params)) =
     (if stdin s = None \<or> stdout s = None
      then settlements s @
             [(nextPromise s, Rejected (JsError ''Error'' ''[MCP Client] Connection not established''))]
      else settlements s)"
  "written (snd (send_request s rpc_method rpc_params)) =
     (if stdin s = None \<or> stdout s = None then written s
      else written s @ [\<lparr>msg_id = Some (nextMessageId s), msg_method = rpc_method, msg_params = rpc_params\<rparr>])"
  "received (snd (send_request s rpc_method rpc_params)) = received s"
  "process (snd (send_request s rpc_method rpc_params)) = process s"
  "stdin (snd (send_request s rpc_method rpc_params)) = stdin s"
  "stdout (snd (send_request s rpc_method rpc_params)) = stdout s"
  by (simp_all add: send_request_def sendMessage_fields)

lemma write_callback_fields:
  "nextPromise (write_callback s p msg error) = nextPromise s"
  "nextMessageId (write_callback s p msg error) = nextMessageId s"
  "messageQueue (write_callback s p msg error) = messageQueue s"
  "timers (write_callback s p msg error) =
     (if error = None \<and> msg_id msg \<noteq> None then timers s else (timers s)(p := None))"
  "settlements (write_callback s p msg error) =
     (if error = None \<and> msg_id msg \<noteq> None then settlements s
      else settlements s @ [(p, case error of Some e \<Rightarrow> Rejected e | None \<Rightarrow> Resolved None)])"
  "received (write_callback s p msg error) = received s"
  "written (write_callback s p msg error) = written s"
  "process (write_callback s p msg error) = process s"
  "stdin (write_callback s p msg error) = stdin s"
  "stdout (write_callback s p msg error) = stdout s"
  by (simp_all add: write_callback_cases)

lemma in_flight_request:
  assumes "in_flight p msg s"
  shows "in_flight p msg (snd (send_request s rpc_method rpc_params))"
proof (rule in_flight_frame[OF assms])
  obtain i where i: "msg_id msg = Some i" "i < nextMessageId s" "p < nextPromise s"
    using assms by (auto simp: in_flight_def)
  show "promise_state (snd (send_request s rpc_method rpc_params)) p = promise_state s p"
    using i by (simp add: promise_state_def send_request_fields map_of_append_other)
  show "timers (snd (send_request s rpc_method rpc_params)) p = timers s p"
    using i by (simp add: send_request_fields)
  show "filter (\<lambda>q. msg_id (message q) = msg_id msg \<or> promise q = p)
          (messageQueue (snd (send_request s rpc_method rpc_params))) =
        filter (\<lambda>q. msg_id (message q) = msg_id msg \<or> promise q = p) (messageQueue s)"
    using i by (simp add: send_request_fields)
  show "\<And>p' d m. timers (snd (send_request s rpc_method rpc_params)) p' = Some (d, m) \<Longrightarrow>
          msg_id m = msg_id msg \<Longrightarrow> timers s p' = Some (d, m)"
    using i by (auto simp: send_request_fields split: if_splits)
qed (simp_all add: send_request_fields)

lemma in_flight_notify:
  assumes "in_flight p msg s"
  shows "in_flight p msg
           (snd (sendMessage s \<lparr>msg_id = None, msg_method = rpc_method, msg_params = rpc_params\<rparr>))"
proof (rule in_flight_frame[OF assms])
  let ?n = "\<lparr>msg_id = None, msg_method = rpc_method, msg_params = rpc_params\<rparr>"
  obtain i where i: "msg_id msg = Some i" "i < nextMessageId s" "p < nextPromise s"
    using assms by (auto simp: in_flight_def)
  show "promise_state (snd (sendMessage s ?n)) p = promise_state s p"
    using i by (simp add: promise_state_def sendMessage_fields map_of_append_other)
  show "timers (snd (sendMessage s ?n)) p = timers s p"
    using i by (simp add: sendMessage_fields)
  show "filter (\<lambda>q. msg_id (message q) = msg_id msg \<or> promise q = p)
          (messageQueue (snd (sendMessage s ?n))) =
        filter (\<lambda>q. msg_id (message q) = msg_id msg \<or> promise q = p) (messageQueue s)"
    by (simp add: sendMessage_fields)
  show "\<And>p' d m. timers (snd (sendMessage s ?n)) p' = Some (d, m) \<Longrightarrow>
          msg_id m = msg_id msg \<Longrightarrow> timers s p' = Some (d, m)"
    using i by (auto simp: sendMessage_fields split: if_splits)
qed (simp_all add: sendMessage_fields)

lemma in_flight_write_done:
  assumes "in_flight p msg s" "p' = p \<longrightarrow> msg' = msg \<and> error = None"
  shows "in_flight p msg (write_callback s p' msg' error)"
proof (cases "p' = p")
  case True
  have "msg_id msg \<noteq> None" using assms(1) by (auto simp: in_flight_def)
  then show ?thesis using assms True by (simp add: write_callback_cases)
next
  case False
  show ?thesis
  proof (rule in_flight_frame[OF assms(1)])
    show "promise_state (write_callback s p' msg' error) p = promise_state s p"
      using False by (simp add: promise_state_def write_callback_fields map_of_append_other)
    show "\<And>q d m. timers (write_callback s p' msg' error) q = Some (d, m) \<Longrightarrow>
          msg_id m = msg_id msg \<Longrightarrow> timers s q = Some (d, m)"
      by (auto simp: write_callback_fields split: if_splits)
  qed (use False in \<open>simp_all add: write_callback_fields\<close>)
qed

lemma in_flight_other_timer:
  assumes "in_flight p msg s" "p' \<noteq> p"
  shows "in_flight p msg (timeout_fires s p')"
proof -
  from timeout_fires_cases[of s p']
  show ?thesis
  proof (elim disjE exE conjE)
    assume "timeout_fires s p' = s"
    then show ?thesis using assms(1) by simp
  next
    fix d m
    assume a: "timers s p' = Some (d, m)" "timeout_fires s p' = s\<lparr>timers := (timers s)(p' := None)\<rparr>"
    show ?thesis unfolding a(2)
    proof (rule in_flight_frame[OF assms(1)])
      show "\<And>q d m. timers (s\<lparr>timers := (timers s)(p' := None)\<rparr>) q = Some (d, m) \<Longrightarrow>
          msg_id m = msg_id msg \<Longrightarrow> timers s q = Some (d, m)"
        by (auto split: if_splits)
    qed (use assms(2) in \<open>simp_all add: promise_state_def\<close>)
  next
    fix d m idx
    assume a: "timers s p' = Some (d, m)"
      "findIndex (\<lambda>x. msg_id (message x) = msg_id m) (messageQueue s) = Some idx"
      "timeout_fires s p' =
         s\<lparr>timers := (timers s)(p' := None),
           messageQueue := take idx (messageQueue s) @ drop (idx + 1) (messageQueue s),
           settlements := settlements s @ [(p', Rejected (timeout_error m))]\<rparr>"
    have mm: "msg_id m \<noteq> msg_id msg"
      using assms a(1) by (auto simp: in_flight_def)
    have x: "idx < length (messageQueue s)" "msg_id (message (messageQueue s ! idx)) = msg_id m"
      using findIndex_Some[OF a(2)] by simp_all
    then have mem: "messageQueue s ! idx \<in> set (messageQueue s)" by simp
    have "promise (messageQueue s ! idx) \<noteq> p"
    proof
      assume "promise (messageQueue s ! idx) = p"
      then have "messageQueue s ! idx = \<lparr>message = msg, promise = p\<rparr>"
        using in_flight_entry[OF assms(1) mem] by simp
      then have "message (messageQueue s ! idx) = msg" by simp
      then show False using x(2) mm by simp
    qed
    then have q: "filter (\<lambda>q. msg_id (message q) = msg_id msg \<or> promise q = p)
          (take idx (messageQueue s) @ drop (idx + 1) (messageQueue s)) =
        filter (\<lambda>q. msg_id (message q) = msg_id msg \<or> promise q = p) (messageQueue s)"
      using x mm by (intro filter_remove_nth) auto
    show ?thesis unfolding a(3)
    proof (rule in_flight_frame[OF assms(1)])
      show "\<And>q d' m'. timers (s\<lparr>timers := (timers s)(p' := None),
           messageQueue := take idx (messageQueue s) @ drop (idx + 1) (messageQueue s),
           settlements := settlements s @ [(p', Rejected (timeout_error m))]\<rparr>) q = Some (d', m') \<Longrightarrow>
          msg_id m' = msg_id msg \<Longrightarrow> timers s q = Some (d', m')"
        by (auto split: if_splits)
      show "promise_state (s\<lparr>timers := (timers s)(p' := None),
           messageQueue := take idx (messageQueue s) @ drop (idx + 1) (messageQueue s),
           settlements := settlements s @ [(p', Rejected (timeout_error m))]\<rparr>) p = promise_state s p"
        using assms(2) by (simp add: promise_state_def map_of_append_other)
    qed (use assms(2) q in simp_all)
  qed
qed

lemma in_flight_step:
  assumes "in_flight p msg s" "quiet parse p msg s ev"
  shows "in_flight p msg (step parse s ev)"
proof (cases ev)
  case (Spawn child i o)
  show ?thesis unfolding Spawn step.simps
    by (rule in_flight_frame[OF assms(1)]) (simp_all add: promise_state_def)
next
  case (Request rpc_method rpc_params)
  then show ?thesis using assms(1) by (simp add: in_flight_request)
next
  case (Notify rpc_method rpc_params)
  then show ?thesis using assms(1) by (simp add: in_flight_notify)
next
  case (Chunk data)
  then show ?thesis using assms by (simp add: in_flight_chunk)
next
  case (WriteDone p' msg' error)
  then show ?thesis using assms by (simp add: in_flight_write_done)
next
  case (TimerFires p')
  then show ?thesis using assms by (simp add: in_flight_other_timer)
next
  case Close
  show ?thesis unfolding Close step.simps close_def
    by (rule in_flight_frame[OF assms(1)]) (simp_all add: promise_state_def)
next
  case (Initialized capabilities version)
  show ?thesis unfolding Initialized step.simps
    by (rule in_flight_frame[OF assms(1)]) (simp_all add: promise_state_def)
next
  case (ToolsUpdated names)
  show ?thesis unfolding ToolsUpdated step.simps
    by (rule in_flight_frame[OF assms(1)]) (simp_all add: promise_state_def)
qed

lemma in_flight_run:
  "in_flight p msg s \<Longrightarrow> run_where (quiet parse p msg) parse s evs \<Longrightarrow>
   in_flight p msg (run parse s evs)"
  by (induction evs arbitrary: s) (simp_all add: run_def in_flight_step)

subsection \<open>Sending a request\<close>

lemma fresh_ids_new_client: "fresh_ids new_client"
  by (simp add: fresh_ids_def new_client_def)

lemma send_request_in_flight:
  assumes "fresh_ids s" "stdin s \<noteq> None" "stdout s \<noteq> None"
  shows "in_flight (nextPromise s)
           \<lparr>msg_id = Some (nextMessageId s), msg_method = rpc_method, msg_params = rpc_params\<rparr>
           (snd (send_request s rpc_method rpc_params))"
proof -
  let ?msg = "\<lparr>msg_id = Some (nextMessageId s), msg_method = rpc_method, msg_params = rpc_params\<rparr>"
  let ?s' = "snd (send_request s rpc_method rpc_params)"
  let ?P = "\<lambda>q. msg_id (message q) = msg_id ?msg \<or> promise q = nextPromise s"
  have q: "\<And>q. q \<in> set (messageQueue s) \<Longrightarrow> \<not> ?P q"
    using assms(1) unfolding fresh_ids_def by fastforce
  then have "filter ?P (messageQueue s) = []" by (simp add: filter_empty_conv)
  then have 1: "filter ?P (messageQueue ?s') = [\<lparr>message = ?msg, promise = nextPromise s\<rparr>]"
    by (simp add: send_request_fields assms(2,3))
  have 2: "timers ?s' (nextPromise s) = Some (message_timeout_ms, ?msg)"
    by (simp add: send_request_fields assms(2,3))
  have t: "\<And>p d m. timers s p = Some (d, m) \<Longrightarrow>
      p < nextPromise s \<and> (\<forall>j. msg_id m = Some j \<longrightarrow> j < nextMessageId s)"
    using assms(1) unfolding fresh_ids_def by blast
  have 3: "\<forall>p' d m. timers ?s' p' = Some (d, m) \<and> msg_id m = msg_id ?msg \<longrightarrow> p' = nextPromise s"
  proof (intro allI impI)
    fix p' d m
    assume a: "timers ?s' p' = Some (d, m) \<and> msg_id m = msg_id ?msg"
    show "p' = nextPromise s"
    proof (rule ccontr)
      assume "p' \<noteq> nextPromise s"
      then have "timers s p' = Some (d, m)" using a by (simp add: send_request_fields assms(2,3))
      from t[OF this] a show False by simp
    qed
  qed
  have "nextPromise s \<notin> fst ` set (settlements s)"
    using assms(1) unfolding fresh_ids_def by fastforce
  then have "map_of (settlements s) (nextPromise s) = None" by (simp add: map_of_eq_None_iff)
  then have 4: "promise_state ?s' (nextPromise s) = None"
    by (simp add: promise_state_def send_request_fields assms(2,3))
  have 5: "\<exists>i. msg_id ?msg = Some i \<and> i < nextMessageId ?s'"
    by (simp add: send_request_fields)
  have 6: "nextPromise s < nextPromise ?s'" by (simp add: send_request_fields)
  show ?thesis unfolding in_flight_def using 1 2 3 4 5 6 by blast
qed

subsection \<open>The timer of a request in flight\<close>

lemma filter_filter_weaker:
  "(\<And>x. Q x \<Longrightarrow> P x) \<Longrightarrow> filter Q (filter P xs) = filter Q xs"
  by (induction xs) auto

lemma in_flight_timeout:
  assumes "in_flight p msg s"
  shows "timeout_fires s p =
      s\<lparr>timers := (timers s)(p := None),
        messageQueue := filter (\<lambda>q. msg_id (message q) \<noteq> msg_id msg) (messageQueue s),
        settlements := settlements s @ [(p, Rejected (timeout_error msg))]\<rparr>"
proof -
  let ?P = "\<lambda>q. msg_id (message q) = msg_id msg \<or> promise q = p"
  let ?Q = "\<lambda>q. msg_id (message q) = msg_id msg"
  have f: "filter ?P (messageQueue s) = [\<lparr>message = msg, promise = p\<rparr>]"
    and t: "timers s p = Some (message_timeout_ms, msg)"
    using assms unfolding in_flight_def by blast+
  have "filter ?Q (messageQueue s) = filter ?Q (filter ?P (messageQueue s))"
    by (rule filter_filter_weaker[symmetric]) simp
  also have "\<dots> = [\<lparr>message = msg, promise = p\<rparr>]" unfolding f by simp
  finally obtain idx where
    "findIndex ?Q (messageQueue s) = Some idx"
    "take idx (messageQueue s) @ drop (idx + 1) (messageQueue s) =
       filter (\<lambda>q. \<not> ?Q q) (messageQueue s)"
    using findIndex_single[of ?Q "messageQueue s"] by blast
  then show ?thesis using t by (simp add: timeout_fires_def Let_def settle_def)
qed

lemma in_flight_timeout_state:
  assumes "in_flight p msg s"
  shows "promise_state (timeout_fires s p) p = Some (Rejected (timeout_error msg))"
    and "\<forall>q \<in> set (messageQueue (timeout_fires s p)). msg_id (message q) \<noteq> msg_id msg"
    and "timers (timeout_fires s p) p = None"
proof -
  have "promise_state s p = None" using assms unfolding in_flight_def by blast
  then show "promise_state (timeout_fires s p) p = Some (Rejected (timeout_error msg))"
    unfolding in_flight_timeout[OF assms] by (simp add: promise_state_def map_add_def)
  show "\<forall>q \<in> set (messageQueue (timeout_fires s p)). msg_id (message q) \<noteq> msg_id msg"
    unfolding in_flight_timeout[OF assms] by simp
  show "timers (timeout_fires s p) p = None"
    unfolding in_flight_timeout[OF assms] by simp
qed

subsection \<open>What has been settled stays settled\<close>

lemma settlements_line:
  "\<exists>ys. settlements (mcp_processMessage parse s line) = settlements s @ ys"
  using mcp_processMessage_cases[of parse s line] by auto

lemma settlements_step: "\<exists>ys. settlements (step parse s ev) = settlements s @ ys"
proof (cases ev)
  case (Chunk data)
  have "\<exists>ys. settlements (handleResponse parse s data) = settlements s @ ys"
  proof (rule handleResponse_invariant[where I = "\<lambda>x. \<exists>ys. settlements x = settlements s @ ys"])
    fix x :: client and line
    assume "\<exists>ys. settlements x = settlements s @ ys"
    then obtain ys where "settlements x = settlements s @ ys" by blast
    moreover obtain zs where
      "settlements (mcp_processMessage parse (x\<lparr>received := received x @ [line]\<rparr>) line) =
         settlements (x\<lparr>received := received x @ [line]\<rparr>) @ zs"
      using settlements_line by blast
    ultimately show "\<exists>ys. settlements (mcp_processMessage parse
        (x\<lparr>received := received x @ [line]\<rparr>) line) = settlements s @ ys"
      by simp
  qed simp_all
  then show ?thesis using Chunk by simp
next
  case (TimerFires p)
  then show ?thesis using timeout_fires_cases[of s p] by auto
qed (simp_all add: send_request_fields sendMessage_fields write_callback_fields close_def)

lemma settled_step:
  "promise_state s p = Some out \<Longrightarrow> promise_state (step parse s ev) p = Some out"
  using settlements_step[of parse s ev]
  by (auto simp: promise_state_def map_add_def split: option.splits)

lemma settled_run:
  "promise_state s p = Some out \<Longrightarrow> promise_state (run parse s evs) p = Some out"
  by (induction evs arbitrary: s) (simp_all add: run_def settled_step)

subsection \<open>A response to a request that is no longer queued\<close>

lemma strict_eq_same:
  "strict_eq a b \<Longrightarrow> strict_eq a' b \<Longrightarrow> a = a'"
  by (cases a; cases a'; cases b rule: option.exhaust; simp)
     (rename_tac i j v, case_tac v, simp_all)+

lemma gone_line:
  assumes "gone i s" "answers parse (Some i) line"
  shows "mcp_processMessage parse s line = s"
proof -
  obtain r where r: "parse line = Inr r" "strict_eq (Some i) (field r ''id'')"
    using assms(2) by (auto simp: answers_def split: sum.splits)
  have "\<not> strict_eq (msg_id (message x)) (field r ''id'')" if "x \<in> set (messageQueue s)" for x
    using strict_eq_same[OF _ r(2), of "msg_id (message x)"] that assms(1)
    by (auto simp: gone_def)
  then have "find (\<lambda>x. strict_eq (msg_id (message x)) (field r ''id'')) (messageQueue s) = None"
    by (simp add: find_None_iff)
  then show ?thesis using r(1) by (rule unmatched_response_ignored[rotated])
qed

lemma gone_frame:
  assumes "gone i s" "nextMessageId s \<le> nextMessageId s'"
    "\<And>q. q \<in> set (messageQueue s') \<Longrightarrow> q \<in> set (messageQueue s) \<or> msg_id (message q) \<noteq> Some i"
  shows "gone i s'"
  using assms unfolding gone_def by fastforce

lemma gone_buffer [simp]:
  "gone i (s\<lparr>responseBuffer := b\<rparr>) = gone i s"
  "gone i (s\<lparr>received := r\<rparr>) = gone i s"
  by (simp_all add: gone_def)

lemma gone_step: "gone i s \<Longrightarrow> gone i (step parse s ev)"
proof (cases ev)
  case (Chunk data)
  assume g: "gone i s"
  have "gone i (handleResponse parse s data)"
  proof (rule handleResponse_invariant[where I = "gone i"])
    fix x :: client and line
    assume "gone i x"
    then have x: "gone i (x\<lparr>received := received x @ [line]\<rparr>)" by simp
    from mcp_processMessage_cases[of parse "x\<lparr>received := received x @ [line]\<rparr>" line]
    show "gone i (mcp_processMessage parse (x\<lparr>received := received x @ [line]\<rparr>) line)"
      by (elim disjE exE conjE) (use x in \<open>auto intro!: gone_frame[OF x]\<close>)
  qed (use g in simp_all)
  then show ?thesis using Chunk by simp
next
  case (TimerFires p)
  assume g: "gone i s"
  from timeout_fires_cases[of s p] show ?thesis unfolding TimerFires step.simps
    by (elim disjE exE conjE)
       (use g in \<open>auto intro!: gone_frame[OF g] dest: in_set_takeD in_set_dropD\<close>)
next
  case (Request rpc_method rpc_params)
  assume g: "gone i s"
  show ?thesis unfolding Request step.simps
    by (rule gone_frame[OF g]) (use g in \<open>auto simp: send_request_fields gone_def split: if_splits\<close>)
next
  case (Notify rpc_method rpc_params)
  assume g: "gone i s"
  show ?thesis unfolding Notify step.simps
    by (rule gone_frame[OF g]) (auto simp: sendMessage_fields split: if_splits)
qed (simp_all add: gone_def write_callback_fields close_def)

lemma gone_run: "gone i s \<Longrightarrow> gone i (run parse s evs)"
  by (induction evs arbitrary: s) (simp_all add: run_def gone_step)

subsection \<open>Ids and promises are fresh in every reachable state\<close>

lemma fresh_ids_frame:
  assumes "fresh_ids s" "nextMessageId s \<le> nextMessageId s'" "nextPromise s \<le> nextPromise s'"
    and q: "\<And>q. q \<in> set (messageQueue s') \<Longrightarrow> q \<in> set (messageQueue s) \<or>
          ((\<forall>j. msg_id (message q) = Some j \<longrightarrow> j < nextMessageId s') \<and> promise q < nextPromise s')"
    and t: "\<And>p d m. timers s' p = Some (d, m) \<Longrightarrow> timers s p = Some (d, m) \<or>
          (p < nextPromise s' \<and> (\<forall>j. msg_id m = Some j \<longrightarrow> j < nextMessageId s'))"
    and e: "\<And>x. x \<in> set (settlements s') \<Longrightarrow> x \<in> set (settlements s) \<or> fst x < nextPromise s'"
  shows "fresh_ids s'"
proof -
  have q0: "\<And>q j. q \<in> set (messageQueue s) \<Longrightarrow> msg_id (message q) = Some j \<Longrightarrow> j < nextMessageId s"
    and q1: "\<And>q. q \<in> set (messageQueue s) \<Longrightarrow> promise q < nextPromise s"
    and t0: "\<And>p d m. timers s p = Some (d, m) \<Longrightarrow> p < nextPromise s"
    and t1: "\<And>p d m j. timers s p = Some (d, m) \<Longrightarrow> msg_id m = Some j \<Longrightarrow> j < nextMessageId s"
    and e0: "\<And>x. x \<in> set (settlements s) \<Longrightarrow> fst x < nextPromise s"
    using assms(1) unfolding fresh_ids_def by blast+
  have 1: "\<forall>q \<in> set (messageQueue s').
         (\<forall>j. msg_id (message q) = Some j \<longrightarrow> j < nextMessageId s') \<and> promise q < nextPromise s'"
  proof
    fix x assume "x \<in> set (messageQueue s')"
    from q[OF this] show "(\<forall>j. msg_id (message x) = Some j \<longrightarrow> j < nextMessageId s') \<and>
        promise x < nextPromise s'"
      using q0[of x] q1[of x] assms(2,3) by (auto intro: less_le_trans)
  qed
  have 2: "\<forall>p d m. timers s' p = Some (d, m) \<longrightarrow>
         p < nextPromise s' \<and> (\<forall>j. msg_id m = Some j \<longrightarrow> j < nextMessageId s')"
  proof (intro allI impI)
    fix p d m assume "timers s' p = Some (d, m)"
    from t[OF this] show "p < nextPromise s' \<and> (\<forall>j. msg_id m = Some j \<longrightarrow> j < nextMessageId s')"
      using t0[of p d m] t1[of p d m] assms(2,3) by (auto intro: less_le_trans)
  qed
  have 3: "\<forall>x \<in> set (settlements s'). fst x < nextPromise s'"
  proof
    fix x assume "x \<in> set (settlements s')"
    from e[OF this] show "fst x < nextPromise s'"
      using e0[of x] assms(3) by (auto intro: less_le_trans)
  qed
  show ?thesis unfolding fresh_ids_def using 1 2 3 by blast
qed

lemma fresh_ids_buffer [simp]:
  "fresh_ids (s\<lparr>responseBuffer := b\<rparr>) = fresh_ids s"
  "fresh_ids (s\<lparr>received := r\<rparr>) = fresh_ids s"
  by (simp_all add: fresh_ids_def)

lemma fresh_ids_line:
  assumes "fresh_ids s"
  shows "fresh_ids (mcp_processMessage parse s line)"
proof -
  from mcp_processMessage_cases[of parse s line]
  consider "mcp_processMessage parse s line = s"
    | r m out where "m \<in> set (messageQueue s)"
        "mcp_processMessage parse s line =
          s\<lparr>timers := (timers s)(promise m := None),
            settlements := settlements s @ [(promise m, out)],
            messageQueue := filter (\<lambda>x. \<not> strict_eq (msg_id (message x)) (field r ''id''))
                              (messageQueue s)\<rparr>"
    by blast
  then show ?thesis
  proof cases
    case 1
    then show ?thesis using assms by simp
  next
    case 2
    have "promise m < nextPromise s" using assms 2(1) unfolding fresh_ids_def by blast
    then show ?thesis unfolding 2(2)
      by (intro fresh_ids_frame[OF assms]) (auto split: if_splits)
  qed
qed

lemma fresh_ids_step:
  assumes "fresh_ids s" "possible s ev"
  shows "fresh_ids (step parse s ev)"
proof (cases ev)
  case (Spawn child i o)
  show ?thesis unfolding Spawn step.simps by (rule fresh_ids_frame[OF assms(1)]) simp_all
next
  case (Request rpc_method rpc_params)
  show ?thesis unfolding Request step.simps
    by (rule fresh_ids_frame[OF assms(1)]) (auto simp: send_request_fields split: if_splits)
next
  case (Notify rpc_method rpc_params)
  show ?thesis unfolding Notify step.simps
    by (rule fresh_ids_frame[OF assms(1)]) (auto simp: sendMessage_fields split: if_splits)
next
  case (Chunk data)
  have "fresh_ids (handleResponse parse s data)"
    by (rule handleResponse_invariant[where I = fresh_ids])
       (use assms(1) in \<open>simp_all add: fresh_ids_line\<close>)
  then show ?thesis using Chunk by simp
next
  case (WriteDone p msg error)
  then have "p < nextPromise s" using assms(2) by simp
  then show ?thesis unfolding WriteDone step.simps
    by (intro fresh_ids_frame[OF assms(1)]) (auto simp: write_callback_fields split: if_splits)
next
  case (TimerFires p)
  have t: "\<And>d m. timers s p = Some (d, m) \<Longrightarrow> p < nextPromise s"
    using assms(1) unfolding fresh_ids_def by blast
  from timeout_fires_cases[of s p] show ?thesis unfolding TimerFires step.simps
  proof (elim disjE exE conjE)
    assume "timeout_fires s p = s"
    then show "fresh_ids (timeout_fires s p)" using assms(1) by simp
  next
    fix d m
    assume a: "timers s p = Some (d, m)" "timeout_fires s p = s\<lparr>timers := (timers s)(p := None)\<rparr>"
    show "fresh_ids (timeout_fires s p)" unfolding a(2)
      by (rule fresh_ids_frame[OF assms(1)]) (auto split: if_splits)
  next
    fix d m idx
    assume a: "timers s p = Some (d, m)"
      "timeout_fires s p =
         s\<lparr>timers := (timers s)(p := None),
           messageQueue := take idx (messageQueue s) @ drop (idx + 1) (messageQueue s),
           settlements := settlements s @ [(p, Rejected (timeout_error m))]\<rparr>"
    show "fresh_ids (timeout_fires s p)" unfolding a(2)
      by (rule fresh_ids_frame[OF assms(1)])
         (use t[OF a(1)] in \<open>auto split: if_splits dest: in_set_takeD in_set_dropD\<close>)
  qed
next
  case Close
  show ?thesis unfolding Close step.simps close_def
    by (rule fresh_ids_frame[OF assms(1)]) simp_all
next
  case (Initialized capabilities version)
  show ?thesis unfolding Initialized step.simps by (rule fresh_ids_frame[OF assms(1)]) simp_all
next
  case (ToolsUpdated names)
  show ?thesis unfolding ToolsUpdated step.simps by (rule fresh_ids_frame[OF assms(1)]) simp_all
qed

lemma fresh_ids_run:
  "fresh_ids s \<Longrightarrow> run_where possible parse s evs \<Longrightarrow> fresh_ids (run parse s evs)"
  by (induction evs arbitrary: s) (simp_all add: run_def fresh_ids_step)

lemma fresh_ids_reachable:
  "run_where possible parse new_client evs \<Longrightarrow> fresh_ids (run parse new_client evs)"
  by (rule fresh_ids_run[OF fresh_ids_new_client])

subsection \<open>How an awaited request gets settled\<close>

lemma received_step: "\<exists>ys. received (step parse s ev) = received s @ ys"
proof (cases ev)
  case (Chunk data)
  then show ?thesis using received_handleResponse_grows[of parse s data] by simp
next
  case (TimerFires p)
  then show ?thesis using timeout_fires_cases[of s p] by auto
qed (simp_all add: send_request_fields sendMessage_fields write_callback_fields close_def)

lemma awaited_settled_grows:
  assumes "awaited parse n p msg s" "\<not> in_flight p msg s"
    "\<exists>ys. settlements s' = settlements s @ ys" "\<exists>ys. received s' = received s @ ys"
  shows "awaited parse n p msg s'"
proof -
  obtain ys zs where g: "settlements s' = settlements s @ ys" "received s' = received s @ zs"
    using assms(3,4) by blast
  have k: "\<And>out. promise_state s p = Some out \<Longrightarrow> promise_state s' p = Some out"
    by (simp add: promise_state_def g(1) map_of_append_settled)
  have m: "\<And>line. line \<in> set (drop n (received s)) \<Longrightarrow> line \<in> set (drop n (received s'))"
    by (auto simp: g(2))
  from assms(1,2) consider e where "promise_state s p = Some (Rejected e)"
    | line r v where "line \<in> set (drop n (received s))" "parse line = Inr r"
        "strict_eq (msg_id msg) (field r ''id'')" "field r ''result'' = Some v"
        "promise_state s p = Some (Resolved (Some v))"
    unfolding awaited_def by blast
  then show ?thesis
  proof cases
    case 1
    then show ?thesis unfolding awaited_def using k by blast
  next
    case 2
    from m[OF 2(1)] 2(2,3,4) k[OF 2(5)] show ?thesis unfolding awaited_def by blast
  qed
qed

lemma awaited_line:
  assumes "awaited parse n p msg s" "n \<le> length (received s)"
  shows "awaited parse n p msg (mcp_processMessage parse (s\<lparr>received := received s @ [line]\<rparr>) line)"
proof (cases "in_flight p msg s")
  case False
  show ?thesis
  proof (rule awaited_settled_grows[OF assms(1) False])
    show "\<exists>ys. settlements (mcp_processMessage parse (s\<lparr>received := received s @ [line]\<rparr>) line)
        = settlements s @ ys"
      using settlements_line[of parse "s\<lparr>received := received s @ [line]\<rparr>" line] by simp
  qed simp
next
  case True
  let ?s = "s\<lparr>received := received s @ [line]\<rparr>"
  have f: "in_flight p msg ?s" using True by simp
  have un: "promise_state ?s p = None" using True by (simp add: in_flight_def promise_state_def)
  from mcp_processMessage_cases[of parse ?s line]
  consider "mcp_processMessage parse ?s line = ?s"
    | r m out where "parse line = Inr r" "m \<in> set (messageQueue ?s)"
        "strict_eq (msg_id (message m)) (field r ''id'')"
        "truthy (field r ''error'') \<and> (\<exists>e. out = Rejected e) \<or>
         \<not> truthy (field r ''error'') \<and> (\<exists>v. field r ''result'' = Some v \<and> out = Resolved (Some v))"
        "mcp_processMessage parse ?s line =
          ?s\<lparr>timers := (timers ?s)(promise m := None),
            settlements := settlements ?s @ [(promise m, out)],
            messageQueue := filter (\<lambda>x. \<not> strict_eq (msg_id (message x)) (field r ''id''))
                              (messageQueue ?s)\<rparr>"
    by blast
  then show ?thesis
  proof cases
    case 1
    then show ?thesis using f by (simp add: awaited_def)
  next
    case 2
    show ?thesis
    proof (cases "promise m = p")
      case pm: True
      then have "m = \<lparr>message = msg, promise = p\<rparr>"
        using in_flight_entry[OF f 2(2)] by simp
      then have "message m = msg" by simp
      then have se: "strict_eq (msg_id msg) (field r ''id'')" using 2(3) by simp
      have ps: "promise_state (mcp_processMessage parse ?s line) p = Some out"
        unfolding 2(5) using un pm by (simp add: promise_state_def map_add_def)
      have mem: "line \<in> set (drop n (received (mcp_processMessage parse ?s line)))"
        using assms(2) by simp
      from 2(4) show ?thesis
      proof (elim disjE conjE exE)
        fix e assume "out = Rejected e"
        then show ?thesis using ps unfolding awaited_def by blast
      next
        fix v assume "field r ''result'' = Some v" "out = Resolved (Some v)"
        then show ?thesis using ps mem 2(1) se unfolding awaited_def by blast
      qed
    next
      case False
      have "msg_id (message m) \<noteq> msg_id msg"
      proof
        assume "msg_id (message m) = msg_id msg"
        then have "m = \<lparr>message = msg, promise = p\<rparr>"
          using in_flight_entry[OF f 2(2)] by simp
        then have "promise m = p" by simp
        then show False using False by simp
      qed
      then have "\<not> strict_eq (msg_id msg) (field r ''id'')"
        using strict_eq_same[OF 2(3), of "msg_id msg"] by auto
      then have "\<not> answers parse (msg_id msg) line" using 2(1) by (simp add: answers_def)
      then have "in_flight p msg (mcp_processMessage parse ?s line)"
        using f by (intro in_flight_line)
      then show ?thesis by (simp add: awaited_def)
    qed
  qed
qed

lemma awaited_buffer [simp]:
  "awaited parse n p msg (s\<lparr>responseBuffer := b\<rparr>) = awaited parse n p msg s"
  by (simp add: awaited_def promise_state_def)

lemma awaited_step:
  assumes "awaited parse n p msg s" "n \<le> length (received s)" "own_callback p msg s ev"
  shows "awaited parse n p msg (step parse s ev)"
proof (cases "in_flight p msg s")
  case False
  show ?thesis
    by (rule awaited_settled_grows[OF assms(1) False settlements_step received_step])
next
  case f: True
  show ?thesis
  proof (cases "quiet parse p msg s ev")
    case True
    then show ?thesis using in_flight_step[OF f] by (simp add: awaited_def)
  next
    case False
    then consider data where "ev = Chunk data"
      | e where "ev = WriteDone p msg (Some e)"
      | "ev = TimerFires p"
      using assms(3) by (cases ev) auto
    then show ?thesis
    proof cases
      case 1
      let ?I = "\<lambda>x. n \<le> length (received x) \<and> awaited parse n p msg x"
      have "?I (handleResponse parse s data)"
      proof (rule handleResponse_invariant[where I = ?I])
        show "?I s" using assms by simp
      next
        fix x :: client and line
        assume "?I x"
        then show "?I (mcp_processMessage parse (x\<lparr>received := received x @ [line]\<rparr>) line)"
          using awaited_line[of parse n p msg x line] by simp
      next
        fix x :: client and b
        assume "?I x"
        then show "?I (x\<lparr>responseBuffer := b\<rparr>)" by simp
      qed
      then show ?thesis using 1 by simp
    next
      case 2
      have "promise_state s p = None" using f by (simp add: in_flight_def)
      then have "promise_state (write_callback s p msg (Some e)) p = Some (Rejected e)"
        by (simp add: promise_state_def write_callback_fields map_add_def)
      then show ?thesis using 2 unfolding awaited_def by auto
    next
      case 3
      then show ?thesis using in_flight_timeout_state(1)[OF f] unfolding awaited_def by auto
    qed
  qed
qed

lemma awaited_run:
  "awaited parse n p msg s \<Longrightarrow> n \<le> length (received s) \<Longrightarrow>
   run_where (own_callback p msg) parse s evs \<Longrightarrow>
   awaited parse n p msg (run parse s evs) \<and> n \<le> length (received (run parse s evs))"
proof (induction evs arbitrary: s)
  case Nil
  then show ?case by (simp add: run_def)
next
  case (Cons ev evs)
  have a: "awaited parse n p msg (step parse s ev)"
    using Cons.prems by (intro awaited_step) simp_all
  obtain ys where "received (step parse s ev) = received s @ ys"
    using received_step by blast
  then have b: "n \<le> length (received (step parse s ev))" using Cons.prems(2) by simp
  have "run_where (own_callback p msg) parse (step parse s ev) evs" using Cons.prems(3) by simp
  from Cons.IH[OF a b this] show ?case by (simp add: run_def)
qed

lemma run_Nil: "run parse s [] = s"
  by (simp add: run_def)

lemma run_Cons: "run parse s (ev # evs) = run parse (step parse s ev) evs"
  by (simp add: run_def)

lemma run_append: "run parse s (evs @ evs') = run parse (run parse s evs) evs'"
  by (simp add: run_def)

lemma in_flight_facts:
  assumes "in_flight p msg s"
  shows "timers s p = Some (30000, msg)" "promise_state s p = None"
    "\<lparr>message = msg, promise = p\<rparr> \<in> set (messageQueue s)"
  using assms in_flight_queued[OF assms] by (simp_all add: in_flight_def message_timeout_ms_def)





lemma sent_in_flight:
  assumes "run_where possible parse new_client history" "before = run parse new_client history"
    "stdin before \<noteq> None" "stdout before \<noteq> None"
    "send_request before rpc_method rpc_params = (p, sent)"
    "msg = \<lparr>msg_id = Some (nextMessageId before), msg_method = rpc_method, msg_params = rpc_params\<rparr>"
  shows "in_flight p msg sent" "written sent = written before @ [msg]"
proof -
  have f: "fresh_ids before" unfolding assms(2) using assms(1) by (rule fresh_ids_reachable)
  have p: "p = nextPromise before" "sent = snd (send_request before rpc_method rpc_params)"
    using assms(5) send_request_fields(1)[of before rpc_method rpc_params] by simp_all
  show "in_flight p msg sent"
    unfolding p assms(6) using f assms(3,4) by (rule send_request_in_flight)
  show "written sent = written before @ [msg]"
    unfolding p assms(6) by (simp add: send_request_fields assms(3,4))
qed

lemma timeout_of_in_flight:
  assumes "in_flight p msg waited" "msg_id msg = Some i"
  shows "promise_state (timeout_fires waited p) p =
           Some (Rejected (JsError ''Error''
             (''[MCP Client] Message timeout after 30 seconds for message id: '' @ show_nat i)))"
    and "messageQueue (timeout_fires waited p) =
           filter (\<lambda>q. msg_id (message q) \<noteq> Some i) (messageQueue waited)"
    and "\<lparr>message = msg, promise = p\<rparr> \<notin> set (messageQueue (timeout_fires waited p))"
    and "timers (timeout_fires waited p) p = None"
    and "gone i (timeout_fires waited p)"
proof -
  show "promise_state (timeout_fires waited p) p =
           Some (Rejected (JsError ''Error''
             (''[MCP Client] Message timeout after 30 seconds for message id: '' @ show_nat i)))"
    using in_flight_timeout_state(1)[OF assms(1)] assms(2) by (simp add: timeout_error_def)
  show q: "messageQueue (timeout_fires waited p) =
           filter (\<lambda>q. msg_id (message q) \<noteq> Some i) (messageQueue waited)"
    unfolding in_flight_timeout[OF assms(1)] using assms(2) by simp
  show "\<lparr>message = msg, promise = p\<rparr> \<notin> set (messageQueue (timeout_fires waited p))"
    unfolding q using assms(2) by simp
  show "timers (timeout_fires waited p) p = None"
    by (rule in_flight_timeout_state(3)[OF assms(1)])
  have "i < nextMessageId waited" using assms by (auto simp: in_flight_def)
  then show "gone i (timeout_fires waited p)"
    unfolding gone_def q unfolding in_flight_timeout[OF assms(1)] by simp
qed



subsection \<open>The timeout of a request\<close>

text \<open>
  C5, as amended. The delay of the timer is 30000 ms. Take a client in any state it can
  reach from a new one, with its streams open, and a request sent from there. As long
  as no line bearing its id arrives and the callback of its write does not report an
  error (other requests and notifications, their responses, write callbacks and timers,
  \<open>close\<close> may all happen), the request stays unsettled, its entry stays in the queue
  and its timer stays armed with the delay 30000. When that timer fires, the entry is
  removed and the promise is rejected with the timeout error naming the id. From then
  on, whatever else happens, a line bearing the id leaves the whole state as it is and
  the promise keeps the timeout rejection.
\<close>

theorem timeout_evicts_and_late_response_is_ignored:
  "message_timeout_ms = 30000 \<and>
   (run_where possible parse new_client history \<and> before = run parse new_client history \<and>
    stdin before \<noteq> None \<and> stdout before \<noteq> None \<and>
    send_request before rpc_method rpc_params = (p, sent) \<and>
    msg = \<lparr>msg_id = Some (nextMessageId before), msg_method = rpc_method, msg_params = rpc_params\<rparr> \<and>
    run_where (quiet parse p msg) parse sent evs \<and> waited = run parse sent evs \<and>
    fired = timeout_fires waited p
    \<longrightarrow>
    written sent = written before @ [msg] \<and>
    timers waited p = Some (30000, msg) \<and>
    promise_state waited p = None \<and>
    \<lparr>message = msg, promise = p\<rparr> \<in> set (messageQueue waited) \<and>
    promise_state fired p =
      Some (Rejected (JsError ''Error''
        (''[MCP Client] Message timeout after 30 seconds for message id: ''
           @ show_nat (nextMessageId before)))) \<and>
    messageQueue fired =
      filter (\<lambda>q. msg_id (message q) \<noteq> Some (nextMessageId before)) (messageQueue waited) \<and>
    \<lparr>message = msg, promise = p\<rparr> \<notin> set (messageQueue fired) \<and>
    timers fired p = None \<and>
    (\<forall>later line. answers parse (Some (nextMessageId before)) line \<longrightarrow>
       mcp_processMessage parse (run parse fired later) line = run parse fired later \<and>
       promise_state (run parse fired later) p = promise_state fired p))"
proof (intro conjI impI)
  show "message_timeout_ms = 30000" by (simp add: message_timeout_ms_def)
next
  assume h: "run_where possible parse new_client history \<and> before = run parse new_client history \<and>
    stdin before \<noteq> None \<and> stdout before \<noteq> None \<and>
    send_request before rpc_method rpc_params = (p, sent) \<and>
    msg = \<lparr>msg_id = Some (nextMessageId before), msg_method = rpc_method, msg_params = rpc_params\<rparr> \<and>
    run_where (quiet parse p msg) parse sent evs \<and> waited = run parse sent evs \<and>
    fired = timeout_fires waited p"
  then have s: "in_flight p msg sent" "written sent = written before @ [msg]"
    using sent_in_flight[of parse history before rpc_method rpc_params p sent msg] by blast+
  have w: "in_flight p msg waited" using in_flight_run[OF s(1)] h by blast
  have i: "msg_id msg = Some (nextMessageId before)" using h by simp
  have f: "fired = timeout_fires waited p" using h by blast
  note t = timeout_of_in_flight[OF w i]
  show "written sent = written before @ [msg]" by (rule s(2))
  show "timers waited p = Some (30000, msg)" "promise_state waited p = None"
    "\<lparr>message = msg, promise = p\<rparr> \<in> set (messageQueue waited)"
    by (rule in_flight_facts[OF w])+
  show "promise_state fired p =
      Some (Rejected (JsError ''Error''
        (''[MCP Client] Message timeout after 30 seconds for message id: ''
           @ show_nat (nextMessageId before))))"
    unfolding f by (rule t(1))
  show "messageQueue fired =
      filter (\<lambda>q. msg_id (message q) \<noteq> Some (nextMessageId before)) (messageQueue waited)"
    unfolding f by (rule t(2))
  show "\<lparr>message = msg, promise = p\<rparr> \<notin> set (messageQueue fired)" unfolding f by (rule t(3))
  show "timers fired p = None" unfolding f by (rule t(4))
  show "\<forall>later line. answers parse (Some (nextMessageId before)) line \<longrightarrow>
       mcp_processMessage parse (run parse fired later) line = run parse fired later \<and>
       promise_state (run parse fired later) p = promise_state fired p"
  proof (intro allI impI conjI)
    fix later line
    assume a: "answers parse (Some (nextMessageId before)) line"
    have "gone (nextMessageId before) (run parse fired later)"
      unfolding f by (rule gone_run[OF t(5)])
    then show "mcp_processMessage parse (run parse fired later) line = run parse fired later"
      using a by (rule gone_line)
    show "promise_state (run parse fired later) p = promise_state fired p"
      using settled_run[of fired p _ parse later] t(1) unfolding f by simp
  qed
qed

theorem timeout_evicts_and_late_response_is_ignored_witness:
  \<open>promise_state
     (run line_parse
        (snd (send_request (run line_parse new_client [Spawn 1 (Some 1) (Some 1)])
                ''tools/list'' (Some (JObj []))))
        [WriteDone 0 example_request None, Close]) 0 = None \<and>
   promise_state
     (timeout_fires
        (run line_parse
           (snd (send_request (run line_parse new_client [Spawn 1 (Some 1) (Some 1)])
                   ''tools/list'' (Some (JObj []))))
           [WriteDone 0 example_request None, Close]) 0) 0
     = Some (Rejected (JsError ''Error''
               ''[MCP Client] Message timeout after 30 seconds for message id: 1'')) \<and>
   mcp_processMessage line_parse
     (timeout_fires
        (run line_parse
           (snd (send_request (run line_parse new_client [Spawn 1 (Some 1) (Some 1)])
                   ''tools/list'' (Some (JObj []))))
           [WriteDone 0 example_request None, Close]) 0)
     (ascii ''{"jsonrpc":"2.0","id":1,"result":"ok"}'')
     = timeout_fires
        (run line_parse
           (snd (send_request (run line_parse new_client [Spawn 1 (Some 1) (Some 1)])
                   ''tools/list'' (Some (JObj []))))
           [WriteDone 0 example_request None, Close]) 0\<close>
proof -
  let ?before = "run line_parse new_client [Spawn 1 (Some 1) (Some 1)]"
  let ?sent = "snd (send_request ?before ''tools/list'' (Some (JObj [])))"
  let ?evs = "[WriteDone 0 example_request None, Close]"
  let ?waited = "run line_parse ?sent ?evs"
  let ?fired = "timeout_fires ?waited 0"
  have b: "nextMessageId ?before = 1" "nextPromise ?before = 0"
    "stdin ?before \<noteq> None" "stdout ?before \<noteq> None"
    by (simp_all add: run_def new_client_def)
  have h: "run_where possible line_parse new_client [Spawn 1 (Some 1) (Some 1)] \<and>
    ?before = run line_parse new_client [Spawn 1 (Some 1) (Some 1)] \<and>
    stdin ?before \<noteq> None \<and> stdout ?before \<noteq> None \<and>
    send_request ?before ''tools/list'' (Some (JObj [])) = (0, ?sent) \<and>
    example_request =
      \<lparr>msg_id = Some (nextMessageId ?before), msg_method = ''tools/list'',
       msg_params = Some (JObj [])\<rparr> \<and>
    run_where (quiet line_parse 0 example_request) line_parse ?sent ?evs \<and>
    ?waited = run line_parse ?sent ?evs \<and> ?fired = timeout_fires ?waited 0"
    using b send_request_fields(1)[of ?before "''tools/list''" "Some (JObj [])"]
    by (simp add: example_request_def prod_eq_iff)
  have a: \<open>answers line_parse (Some (nextMessageId ?before))
             (ascii ''{"jsonrpc":"2.0","id":1,"result":"ok"}'')\<close>
    using b by (simp add: answers_def line_parse_def ascii_def)
  have s: "show_nat (Suc 0) = ''1''" by code_simp
  note t = timeout_evicts_and_late_response_is_ignored[where parse = line_parse
      and history = "[Spawn 1 (Some 1) (Some 1)]" and before = ?before
      and rpc_method = "''tools/list''" and rpc_params = "Some (JObj [])" and p = 0 and sent = ?sent
      and msg = example_request and evs = ?evs and waited = ?waited and fired = ?fired,
      THEN conjunct2, THEN mp, OF h]
  have l: \<open>mcp_processMessage line_parse (run line_parse ?fired [])
             (ascii ''{"jsonrpc":"2.0","id":1,"result":"ok"}'') = run line_parse ?fired []\<close>
    using t a by blast
  have "promise_state ?waited 0 = None" using t by blast
  moreover have "promise_state ?fired 0 = Some (Rejected (JsError ''Error''
        (''[MCP Client] Message timeout after 30 seconds for message id: ''
           @ show_nat (nextMessageId ?before))))"
    using t by blast
  ultimately show ?thesis using l b s by (simp add: run_Nil)
qed

text \<open>
  C5 as stated fails for a request that the peer never answers and whose write fails:
  the write callback rejects it with the write error and cancels its timer, so no
  timeout error is ever raised, and its entry stays in the queue for good. It fails
  also for a request made while the connection is not established: it is rejected at
  once with another error and has neither an entry nor a timer.
\<close>

theorem failed_write_is_never_timed_out:
  "received (write_callback waiting_client 0 example_request (Some (JsError ''Error'' ''write EPIPE'')))
     = [] \<and>
   promise_state
     (write_callback waiting_client 0 example_request (Some (JsError ''Error'' ''write EPIPE''))) 0
     = Some (Rejected (JsError ''Error'' ''write EPIPE'')) \<and>
   messageQueue
     (write_callback waiting_client 0 example_request (Some (JsError ''Error'' ''write EPIPE'')))
     = [\<lparr>message = example_request, promise = 0\<rparr>] \<and>
   timers
     (write_callback waiting_client 0 example_request (Some (JsError ''Error'' ''write EPIPE''))) 0
     = None \<and>
   timeout_fires
     (write_callback waiting_client 0 example_request (Some (JsError ''Error'' ''write EPIPE''))) 0
     = write_callback waiting_client 0 example_request (Some (JsError ''Error'' ''write EPIPE'')) \<and>
   promise_state (snd (sendMessage new_client example_request)) 0
     = Some (Rejected (JsError ''Error'' ''[MCP Client] Connection not established'')) \<and>
   messageQueue (snd (sendMessage new_client example_request)) = [] \<and>
   timers (snd (sendMessage new_client example_request)) 0 = None \<and>
   timeout_fires (snd (sendMessage new_client example_request)) 0
     = snd (sendMessage new_client example_request)"
  by (simp add: write_callback_def settle_def clearTimeout_def waiting_client_eq open_client_def
      new_client_def promise_state_def timeout_fires_def sendMessage_def Let_def)


subsection \<open>close\<close>

lemma close_fields [simp]:
  "messageQueue (close st) = messageQueue st" "settlements (close st) = settlements st"
  "timers (close st) = timers st" "received (close st) = received st"
  "responseBuffer (close st) = []"
  by (simp_all add: close_def)




subsection \<open>connect\<close>

lemma invalid_without_version:
  "(\<forall>r v. response = Some r \<longrightarrow> field r ''protocolVersion'' \<noteq> Some (JStr v)) \<Longrightarrow>
   \<not> valid_handshake response"
  by (auto simp: valid_handshake_def split: option.splits json.splits)

lemma initialize_suspended:
  assumes "stdin st \<noteq> None" "stdout st \<noteq> None"
  shows "initialize await st =
     (case await (snd (sendMessage (st\<lparr>nextMessageId := nextMessageId st + 1\<rparr>)
                          (initMessage (nextMessageId st)))) (nextPromise st) of
        (None, st2) \<Rightarrow> (Unsettled, st2)
      | (Some (Rejected e), st2) \<Rightarrow> (Rejects e, st2)
      | (Some (Resolved response), st2) \<Rightarrow>
          if \<not> valid_handshake response then
            (Rejects (JsError ''Error''
                        ''[MCP Client] Invalid initialization response from server''), st2)
          else
            (case sendMessage
                    (st2\<lparr>serverCapabilities := response_field response ''capabilities'',
                         serverVersion := response_field response ''serverInfo'',
                         initialized := True\<rparr>)
                    \<lparr>msg_id = None, msg_method = ''notifications/initialized'',
                     msg_params = None\<rparr> of
               (p2, st3) \<Rightarrow>
                 (case await st3 p2 of
                    (None, st4) \<Rightarrow> (Unsettled, st4)
                  | (Some (Rejected e), st4) \<Rightarrow> (Rejects e, st4)
                  | (Some (Resolved u), st4) \<Rightarrow> (Fulfils (), st4))))"
proof -
  obtain a b where "stdin st = Some a" "stdout st = Some b" using assms by auto
  then show ?thesis
    by (simp add: initialize_def sendMessage_def Let_def)
qed


lemma handshake_sent_eq:
  assumes "child_stdin \<noteq> None" "child_stdout \<noteq> None"
  shows "handshake_sent st child child_stdin child_stdout =
     st\<lparr>process := Some child, stdin := child_stdin, stdout := child_stdout,
        nextMessageId := nextMessageId st + 1,
        nextPromise := nextPromise st + 1,
        timers := (timers st)(nextPromise st \<mapsto> (message_timeout_ms, initMessage (nextMessageId st))),
        messageQueue := messageQueue st @
          [\<lparr>message = initMessage (nextMessageId st), promise = nextPromise st\<rparr>],
        written := written st @ [initMessage (nextMessageId st)]\<rparr>"
proof -
  obtain a b where "child_stdin = Some a" "child_stdout = Some b" using assms by auto
  then show ?thesis
    by (simp add: handshake_sent_def spawned_client_def sendMessage_def Let_def initMessage_def)
qed

lemma connect_spawned:
  "connect await (Inr (child, child_stdin, child_stdout)) st =
      (case initialize await (spawned_client st child child_stdin child_stdout) of
         (Unsettled, st1) \<Rightarrow> (Unsettled, st1)
       | (Rejects e, st1) \<Rightarrow> (Rejects e, st1)
       | (Fulfils u, st1) \<Rightarrow> updateAvailableTools await st1)"
  by (simp add: connect_def spawned_client_def)

lemma initialize_spawned:
  assumes "child_stdin \<noteq> None" "child_stdout \<noteq> None"
  shows "initialize await (spawned_client st child child_stdin child_stdout) =
     (case await (handshake_sent st child child_stdin child_stdout) (nextPromise st) of
        (None, st2) \<Rightarrow> (Unsettled, st2)
      | (Some (Rejected e), st2) \<Rightarrow> (Rejects e, st2)
      | (Some (Resolved response), st2) \<Rightarrow>
          if \<not> valid_handshake response then
            (Rejects (JsError ''Error''
                        ''[MCP Client] Invalid initialization response from server''), st2)
          else
            (case sendMessage
                    (st2\<lparr>serverCapabilities := response_field response ''capabilities'',
                         serverVersion := response_field response ''serverInfo'',
                         initialized := True\<rparr>)
                    \<lparr>msg_id = None, msg_method = ''notifications/initialized'',
                     msg_params = None\<rparr> of
               (p2, st3) \<Rightarrow>
                 (case await st3 p2 of
                    (None, st4) \<Rightarrow> (Unsettled, st4)
                  | (Some (Rejected e), st4) \<Rightarrow> (Rejects e, st4)
                  | (Some (Resolved u), st4) \<Rightarrow> (Fulfils (), st4))))"
proof -
  have "stdin (spawned_client st child child_stdin child_stdout) \<noteq> None"
       "stdout (spawned_client st child child_stdin child_stdout) \<noteq> None"
    using assms by (simp_all add: spawned_client_def)
  from initialize_suspended[OF this, of await]
  show ?thesis by (simp add: handshake_sent_def spawned_client_def)
qed

lemma connect_handshake_rejected:
  assumes "child_stdin \<noteq> None" "child_stdout \<noteq> None"
    "await (handshake_sent st child child_stdin child_stdout) (nextPromise st) = (Some (Rejected e), st2)"
  shows "connect await (Inr (child, child_stdin, child_stdout)) st = (Rejects e, st2)"
  unfolding connect_spawned initialize_spawned[OF assms(1,2)] assms(3) by simp

lemma connect_handshake_invalid:
  assumes "child_stdin \<noteq> None" "child_stdout \<noteq> None"
    "await (handshake_sent st child child_stdin child_stdout) (nextPromise st)
       = (Some (Resolved response), st2)"
    "\<not> valid_handshake response"
  shows "connect await (Inr (child, child_stdin, child_stdout)) st =
         (Rejects (JsError ''Error''
                     ''[MCP Client] Invalid initialization response from server''), st2)"
  unfolding connect_spawned initialize_spawned[OF assms(1,2)] assms(3) using assms(4) by simp

lemma connect_notification_rejected:
  assumes "child_stdin \<noteq> None" "child_stdout \<noteq> None"
    "await (handshake_sent st child child_stdin child_stdout) (nextPromise st)
       = (Some (Resolved response), st2)"
    "valid_handshake response" "stdin st2 \<noteq> None" "stdout st2 \<noteq> None"
    "await (snd (sendMessage
                     (st2\<lparr>serverCapabilities := response_field response ''capabilities'',
                          serverVersion := response_field response ''serverInfo'',
                          initialized := True\<rparr>)
                     \<lparr>msg_id = None, msg_method = ''notifications/initialized'',
                      msg_params = None\<rparr>)) (nextPromise st2)
         = (Some (Rejected e), st4)"
  shows "connect await (Inr (child, child_stdin, child_stdout)) st = (Rejects e, st4)"
    and "initialized (snd (sendMessage
                     (st2\<lparr>serverCapabilities := response_field response ''capabilities'',
                          serverVersion := response_field response ''serverInfo'',
                          initialized := True\<rparr>)
                     \<lparr>msg_id = None, msg_method = ''notifications/initialized'',
                      msg_params = None\<rparr>))"
proof -
  let ?n = "\<lparr>msg_id = None, msg_method = ''notifications/initialized'', msg_params = None\<rparr>"
  let ?st3 = "st2\<lparr>serverCapabilities := response_field response ''capabilities'',
                          serverVersion := response_field response ''serverInfo'',
                          initialized := True\<rparr>"
  obtain a b where ab: "stdin st2 = Some a" "stdout st2 = Some b" using assms(5,6) by auto
  obtain S where sm: "sendMessage ?st3 ?n = (nextPromise st2, S)"
    using ab by (simp add: sendMessage_def Let_def)
  then have aw: "await S (nextPromise st2) = (Some (Rejected e), st4)"
    using assms(7) by simp
  show "initialized (snd (sendMessage ?st3 ?n))"
    using ab by (simp add: sendMessage_def Let_def)
  have "initialize await (spawned_client st child child_stdin child_stdout) = (Rejects e, st4)"
    unfolding initialize_spawned[OF assms(1,2)] assms(3)
    using assms(4) by (simp add: sm aw)
  then show "connect await (Inr (child, child_stdin, child_stdout)) st = (Rejects e, st4)"
    unfolding connect_spawned by simp
qed

lemma handshake_sent_request:
  "handshake_sent st child child_stdin child_stdout =
     snd (send_request (spawned_client st child child_stdin child_stdout) ''initialize''
            (msg_params (initMessage 0)))"
  by (simp add: handshake_sent_def send_request_def spawned_client_def initMessage_def)

lemma handshake_in_flight:
  assumes "fresh_ids st" "child_stdin \<noteq> None" "child_stdout \<noteq> None"
  shows "in_flight (nextPromise st) (initMessage (nextMessageId st))
           (handshake_sent st child child_stdin child_stdout)"
proof -
  let ?sp = "spawned_client st child child_stdin child_stdout"
  have f: "fresh_ids ?sp" using assms(1) by (simp add: fresh_ids_def spawned_client_def)
  have o: "stdin ?sp \<noteq> None" "stdout ?sp \<noteq> None"
    using assms(2,3) by (simp_all add: spawned_client_def)
  have m: "initMessage (nextMessageId st) =
      \<lparr>msg_id = Some (nextMessageId ?sp), msg_method = ''initialize'',
       msg_params = msg_params (initMessage 0)\<rparr>"
    by (simp add: initMessage_def spawned_client_def)
  have p: "nextPromise st = nextPromise ?sp" by (simp add: spawned_client_def)
  show ?thesis unfolding handshake_sent_request m p
    using f o by (rule send_request_in_flight)
qed

text \<open>
  C8, as amended. Every failing step of \<open>connect\<close> propagates its error to the caller:
  a throw of \<open>spawn\<close>, a missing stream, a rejected handshake request, a handshake
  response without a string \<open>protocolVersion\<close>, a rejected \<open>initialized\<close>
  notification. Nothing is undone: the state \<open>connect\<close> fails with is the one the event
  loop left at the last resumption. From the spawn on, \<open>process\<close>, \<open>stdin\<close>, \<open>stdout\<close>
  hold the child's handles and the message id of the handshake is consumed;
  \<open>initialized\<close> is untouched up to the validation and is already true when the
  notification is sent.

  The last part follows the handshake through the event loop, from any state a client
  can reach and for any events during the wait: when no line bearing the handshake's id
  carries a result with a string \<open>protocolVersion\<close>, the handshake's promise is settled
  at the latest when its timer fires, and once it is settled \<open>connect\<close> fails, with the
  error that rejected the promise or else with that of the failed validation, in the
  state the event loop left.
\<close>

theorem connect_failure_propagates:
  "connect await (Inl e) st = (Rejects e, st) \<and>
   (child_stdin = None \<or> child_stdout = None \<longrightarrow>
      connect await (Inr (child, child_stdin, child_stdout)) st =
        (Rejects (JsError ''Error'' ''[MCP Client] Connection not established''),
         spawned_client st child child_stdin child_stdout)) \<and>
   (child_stdin \<noteq> None \<and> child_stdout \<noteq> None \<longrightarrow>
      process (handshake_sent st child child_stdin child_stdout) = Some child \<and>
      stdin (handshake_sent st child child_stdin child_stdout) = child_stdin \<and>
      stdout (handshake_sent st child child_stdin child_stdout) = child_stdout \<and>
      nextMessageId (handshake_sent st child child_stdin child_stdout) = nextMessageId st + 1 \<and>
      initialized (handshake_sent st child child_stdin child_stdout) = initialized st \<and>
      (await (handshake_sent st child child_stdin child_stdout) (nextPromise st)
         = (Some (Rejected e), st2) \<longrightarrow>
       connect await (Inr (child, child_stdin, child_stdout)) st = (Rejects e, st2)) \<and>
      (await (handshake_sent st child child_stdin child_stdout) (nextPromise st)
         = (Some (Resolved response), st2) \<and>
       (\<forall>r v. response = Some r \<longrightarrow> field r ''protocolVersion'' \<noteq> Some (JStr v)) \<longrightarrow>
       connect await (Inr (child, child_stdin, child_stdout)) st =
         (Rejects (JsError ''Error''
                     ''[MCP Client] Invalid initialization response from server''), st2)) \<and>
      (await (handshake_sent st child child_stdin child_stdout) (nextPromise st)
         = (Some (Resolved response), st2) \<and> valid_handshake response \<and>
       stdin st2 \<noteq> None \<and> stdout st2 \<noteq> None \<and>
       await (snd (sendMessage
                     (st2\<lparr>serverCapabilities := response_field response ''capabilities'',
                          serverVersion := response_field response ''serverInfo'',
                          initialized := True\<rparr>)
                     \<lparr>msg_id = None, msg_method = ''notifications/initialized'',
                      msg_params = None\<rparr>)) (nextPromise st2)
         = (Some (Rejected e), st4) \<longrightarrow>
       connect await (Inr (child, child_stdin, child_stdout)) st = (Rejects e, st4) \<and>
       initialized (snd (sendMessage
                     (st2\<lparr>serverCapabilities := response_field response ''capabilities'',
                          serverVersion := response_field response ''serverInfo'',
                          initialized := True\<rparr>)
                     \<lparr>msg_id = None, msg_method = ''notifications/initialized'',
                      msg_params = None\<rparr>)))) \<and>
   (child_stdin \<noteq> None \<and> child_stdout \<noteq> None \<and>
    run_where possible parse new_client history \<and> st = run parse new_client history \<and>
    run_where (own_callback (nextPromise st) (initMessage (nextMessageId st))) parse
      (handshake_sent st child child_stdin child_stdout) evs \<and>
    resumed = run parse (handshake_sent st child child_stdin child_stdout) evs \<and>
    await (handshake_sent st child child_stdin child_stdout) (nextPromise st)
      = (promise_state resumed (nextPromise st), resumed) \<and>
    (\<forall>line \<in> set (drop (length (received (handshake_sent st child child_stdin child_stdout)))
                     (received resumed)).
       \<forall>r v s. parse line = Inr r \<and> strict_eq (Some (nextMessageId st)) (field r ''id'') \<and>
               field r ''result'' = Some v \<longrightarrow>
               field v ''protocolVersion'' \<noteq> Some (JStr s))
    \<longrightarrow>
    promise_state (timeout_fires resumed (nextPromise st)) (nextPromise st) \<noteq> None \<and>
    (promise_state resumed (nextPromise st) \<noteq> None \<longrightarrow>
       connect await (Inr (child, child_stdin, child_stdout)) st =
         (Rejects (case promise_state resumed (nextPromise st) of
                     Some (Rejected x) \<Rightarrow> x
                   | _ \<Rightarrow> JsError ''Error''
                            ''[MCP Client] Invalid initialization response from server''),
          resumed)))"
proof (intro conjI impI)
  show "connect await (Inl e) st = (Rejects e, st)" by (simp add: connect_def)
next
  assume "child_stdin = None \<or> child_stdout = None"
  then show "connect await (Inr (child, child_stdin, child_stdout)) st =
        (Rejects (JsError ''Error'' ''[MCP Client] Connection not established''),
         spawned_client st child child_stdin child_stdout)"
    by (auto simp: connect_def initialize_def spawned_client_def)
next
  assume o: "child_stdin \<noteq> None \<and> child_stdout \<noteq> None"
  then have hs: "handshake_sent st child child_stdin child_stdout =
     st\<lparr>process := Some child, stdin := child_stdin, stdout := child_stdout,
        nextMessageId := nextMessageId st + 1,
        nextPromise := nextPromise st + 1,
        timers := (timers st)(nextPromise st \<mapsto> (message_timeout_ms, initMessage (nextMessageId st))),
        messageQueue := messageQueue st @
          [\<lparr>message = initMessage (nextMessageId st), promise = nextPromise st\<rparr>],
        written := written st @ [initMessage (nextMessageId st)]\<rparr>"
    by (intro handshake_sent_eq) simp_all
  show "process (handshake_sent st child child_stdin child_stdout) = Some child"
    "stdin (handshake_sent st child child_stdin child_stdout) = child_stdin"
    "stdout (handshake_sent st child child_stdin child_stdout) = child_stdout"
    "nextMessageId (handshake_sent st child child_stdin child_stdout) = nextMessageId st + 1"
    "initialized (handshake_sent st child child_stdin child_stdout) = initialized st"
    by (simp_all add: hs)
  {
    assume "await (handshake_sent st child child_stdin child_stdout) (nextPromise st)
         = (Some (Rejected e), st2)"
    then show "connect await (Inr (child, child_stdin, child_stdout)) st = (Rejects e, st2)"
      using o by (intro connect_handshake_rejected) simp_all
  }
  {
    assume a: "await (handshake_sent st child child_stdin child_stdout) (nextPromise st)
         = (Some (Resolved response), st2) \<and>
       (\<forall>r v. response = Some r \<longrightarrow> field r ''protocolVersion'' \<noteq> Some (JStr v))"
    then have "\<not> valid_handshake response" by (intro invalid_without_version) simp
    then show "connect await (Inr (child, child_stdin, child_stdout)) st =
         (Rejects (JsError ''Error''
                     ''[MCP Client] Invalid initialization response from server''), st2)"
      using a o by (intro connect_handshake_invalid[of child_stdin child_stdout await st child response]) simp_all
  }
  {
    assume a: "await (handshake_sent st child child_stdin child_stdout) (nextPromise st)
         = (Some (Resolved response), st2) \<and> valid_handshake response \<and>
       stdin st2 \<noteq> None \<and> stdout st2 \<noteq> None \<and>
       await (snd (sendMessage
                     (st2\<lparr>serverCapabilities := response_field response ''capabilities'',
                          serverVersion := response_field response ''serverInfo'',
                          initialized := True\<rparr>)
                     \<lparr>msg_id = None, msg_method = ''notifications/initialized'',
                      msg_params = None\<rparr>)) (nextPromise st2)
         = (Some (Rejected e), st4)"
    show "connect await (Inr (child, child_stdin, child_stdout)) st = (Rejects e, st4)"
      using a o by (intro connect_notification_rejected(1)[of child_stdin child_stdout await st child response st2]) simp_all
    show "initialized (snd (sendMessage
                     (st2\<lparr>serverCapabilities := response_field response ''capabilities'',
                          serverVersion := response_field response ''serverInfo'',
                          initialized := True\<rparr>)
                     \<lparr>msg_id = None, msg_method = ''notifications/initialized'',
                      msg_params = None\<rparr>))"
      using a o by (intro connect_notification_rejected(2)[of child_stdin child_stdout await st child response st2 e st4]) simp_all
  }
next
  assume g: "child_stdin \<noteq> None \<and> child_stdout \<noteq> None \<and>
    run_where possible parse new_client history \<and> st = run parse new_client history \<and>
    run_where (own_callback (nextPromise st) (initMessage (nextMessageId st))) parse
      (handshake_sent st child child_stdin child_stdout) evs \<and>
    resumed = run parse (handshake_sent st child child_stdin child_stdout) evs \<and>
    await (handshake_sent st child child_stdin child_stdout) (nextPromise st)
      = (promise_state resumed (nextPromise st), resumed) \<and>
    (\<forall>line \<in> set (drop (length (received (handshake_sent st child child_stdin child_stdout)))
                     (received resumed)).
       \<forall>r v s. parse line = Inr r \<and> strict_eq (Some (nextMessageId st)) (field r ''id'') \<and>
               field r ''result'' = Some v \<longrightarrow>
               field v ''protocolVersion'' \<noteq> Some (JStr s))"
  let ?hs = "handshake_sent st child child_stdin child_stdout"
  let ?p = "nextPromise st"
  let ?m = "initMessage (nextMessageId st)"
  let ?n = "length (received ?hs)"
  have o: "child_stdin \<noteq> None" "child_stdout \<noteq> None" using g by blast+
  have "st = run parse new_client history" "run_where possible parse new_client history"
    using g by blast+
  then have "fresh_ids st" using fresh_ids_reachable by simp
  then have f: "in_flight ?p ?m ?hs" using o by (rule handshake_in_flight)
  have r: "resumed = run parse ?hs evs" using g by blast
  have "run_where (own_callback ?p ?m) parse ?hs evs" using g by blast
  then have a: "awaited parse ?n ?p ?m resumed"
    unfolding r using awaited_run[of parse ?n ?p ?m ?hs evs] f by (simp add: awaited_def)
  have aw: "await ?hs ?p = (promise_state resumed ?p, resumed)" using g by blast
  have lines: "\<And>line r v s. line \<in> set (drop ?n (received resumed)) \<Longrightarrow> parse line = Inr r \<Longrightarrow>
      strict_eq (Some (nextMessageId st)) (field r ''id'') \<Longrightarrow> field r ''result'' = Some v \<Longrightarrow>
      field v ''protocolVersion'' \<noteq> Some (JStr s)"
    using g by blast
  show "promise_state (timeout_fires resumed ?p) ?p \<noteq> None"
  proof (cases "in_flight ?p ?m resumed")
    case True
    then show ?thesis using in_flight_timeout_state(1)[OF True] by simp
  next
    case False
    then obtain out where "promise_state resumed ?p = Some out"
      using a unfolding awaited_def by blast
    then show ?thesis using settled_step[of resumed ?p out parse "TimerFires ?p"] by simp
  qed
  assume s: "promise_state resumed ?p \<noteq> None"
  then have "\<not> in_flight ?p ?m resumed" by (auto simp: in_flight_def)
  then consider x where "promise_state resumed ?p = Some (Rejected x)"
    | line r v where "line \<in> set (drop ?n (received resumed))" "parse line = Inr r"
        "strict_eq (msg_id ?m) (field r ''id'')" "field r ''result'' = Some v"
        "promise_state resumed ?p = Some (Resolved (Some v))"
    using a unfolding awaited_def by blast
  then show "connect await (Inr (child, child_stdin, child_stdout)) st =
         (Rejects (case promise_state resumed ?p of
                     Some (Rejected x) \<Rightarrow> x
                   | _ \<Rightarrow> JsError ''Error''
                            ''[MCP Client] Invalid initialization response from server''),
          resumed)"
  proof cases
    case 1
    then show ?thesis
      using connect_handshake_rejected[OF o, of await st child x resumed] aw by simp
  next
    case 2
    have "\<And>s. field v ''protocolVersion'' \<noteq> Some (JStr s)"
      using lines[OF 2(1,2) _ 2(4)] 2(3) by (simp add: initMessage_def)
    then have "\<not> valid_handshake (Some v)" by (intro invalid_without_version) simp
    then show ?thesis
      using connect_handshake_invalid[OF o, of await st child "Some v" resumed] aw 2(5) by simp
  qed
qed

lemma example_handshake:
  \<open>peer_sends line_parse (wire ''{"jsonrpc":"2.0","id":1,"result":{"capabilities":{}}}'')
      (handshake_sent new_client 7 (Some 7) (Some 7)) 0
    = (Some (Resolved (Some (JObj [(''capabilities'', JObj [])]))),
       handleResponse line_parse (handshake_sent new_client 7 (Some 7) (Some 7))
         (wire ''{"jsonrpc":"2.0","id":1,"result":{"capabilities":{}}}''))\<close>
proof -
  let ?L = \<open>ascii ''{"jsonrpc":"2.0","id":1,"result":{"capabilities":{}}}''\<close>
  let ?hs = "handshake_sent new_client 7 (Some 7) (Some 7)"
  have w: \<open>toString (wire ''{"jsonrpc":"2.0","id":1,"result":{"capabilities":{}}}'') = ?L @ [0x0A]\<close>
    by (simp add: toString_def wire_def ascii_def utf16_units_def)
  have t: "indexOf ?L 0x0A = None" "trim ?L = ?L"
    by (simp_all add: ascii_def trim_def js_space_def)
  have hs: "?hs = new_client\<lparr>process := Some 7, stdin := Some 7, stdout := Some 7,
        nextMessageId := 2, nextPromise := 1,
        timers := [0 \<mapsto> (message_timeout_ms, initMessage 1)],
        messageQueue := [\<lparr>message = initMessage 1, promise = 0\<rparr>],
        written := [initMessage 1]\<rparr>"
    using handshake_sent_eq[of "Some 7" "Some 7" new_client 7] by (simp add: new_client_def)
  have r: "received ?hs = []" "responseBuffer ?hs = []"
    unfolding hs by (simp_all add: new_client_def)
  have h: \<open>handleResponse line_parse ?hs (wire ''{"jsonrpc":"2.0","id":1,"result":{"capabilities":{}}}'')
      = mcp_processMessage line_parse (?hs\<lparr>received := [?L]\<rparr>) ?L\<close>
    unfolding handleResponse_def w
    using handleText_one_line[of ?L ?hs line_parse] t r by (simp add: ascii_def)
  have p: "settlements (mcp_processMessage line_parse (?hs\<lparr>received := [?L]\<rparr>) ?L)
      = [(0, Resolved (Some (JObj [(''capabilities'', JObj [])])))]"
    unfolding hs
    by (simp add: mcp_processMessage_def line_parse_def ascii_def initMessage_def
        respond_def entry_resolve_def settle_def clearTimeout_def new_client_def)
  show ?thesis
    unfolding peer_sends_def Let_def promise_state_def
    by (simp add: h p)
qed

lemma example_handshake_state:
  \<open>process (handleResponse line_parse (handshake_sent new_client 7 (Some 7) (Some 7))
         (wire ''{"jsonrpc":"2.0","id":1,"result":{"capabilities":{}}}'')) = Some 7 \<and>
   stdin (handleResponse line_parse (handshake_sent new_client 7 (Some 7) (Some 7))
         (wire ''{"jsonrpc":"2.0","id":1,"result":{"capabilities":{}}}'')) = Some 7 \<and>
   stdout (handleResponse line_parse (handshake_sent new_client 7 (Some 7) (Some 7))
         (wire ''{"jsonrpc":"2.0","id":1,"result":{"capabilities":{}}}'')) = Some 7 \<and>
   nextMessageId (handleResponse line_parse (handshake_sent new_client 7 (Some 7) (Some 7))
         (wire ''{"jsonrpc":"2.0","id":1,"result":{"capabilities":{}}}'')) = 2 \<and>
   initialized (handleResponse line_parse (handshake_sent new_client 7 (Some 7) (Some 7))
         (wire ''{"jsonrpc":"2.0","id":1,"result":{"capabilities":{}}}'')) = False\<close>
proof -
  let ?L = \<open>ascii ''{"jsonrpc":"2.0","id":1,"result":{"capabilities":{}}}''\<close>
  let ?hs = "handshake_sent new_client 7 (Some 7) (Some 7)"
  have w: \<open>toString (wire ''{"jsonrpc":"2.0","id":1,"result":{"capabilities":{}}}'') = ?L @ [0x0A]\<close>
    by (simp add: toString_def wire_def ascii_def utf16_units_def)
  have t: "indexOf ?L 0x0A = None" "trim ?L = ?L"
    by (simp_all add: ascii_def trim_def js_space_def)
  have hs: "?hs = new_client\<lparr>process := Some 7, stdin := Some 7, stdout := Some 7,
        nextMessageId := 2, nextPromise := 1,
        timers := [0 \<mapsto> (message_timeout_ms, initMessage 1)],
        messageQueue := [\<lparr>message = initMessage 1, promise = 0\<rparr>],
        written := [initMessage 1]\<rparr>"
    using handshake_sent_eq[of "Some 7" "Some 7" new_client 7] by (simp add: new_client_def)
  have r: "received ?hs = []" "responseBuffer ?hs = []"
    unfolding hs by (simp_all add: new_client_def)
  have h: \<open>handleResponse line_parse ?hs (wire ''{"jsonrpc":"2.0","id":1,"result":{"capabilities":{}}}'')
      = mcp_processMessage line_parse (?hs\<lparr>received := [?L]\<rparr>) ?L\<close>
    unfolding handleResponse_def w
    using handleText_one_line[of ?L ?hs line_parse] t r by (simp add: ascii_def)
  show ?thesis
    unfolding h unfolding hs
    by (simp add: mcp_processMessage_def line_parse_def ascii_def initMessage_def
        respond_def entry_resolve_def settle_def clearTimeout_def new_client_def)
qed

lemma unanswerable_handshake:
  \<open>handleResponse line_parse (handshake_sent new_client 7 (Some 7) (Some 7))
      (wire ''{"jsonrpc":"2.0","id":1}'')
    = (handshake_sent new_client 7 (Some 7) (Some 7))
        \<lparr>received := [ascii ''{"jsonrpc":"2.0","id":1}'']\<rparr>\<close>
proof -
  let ?L = \<open>ascii ''{"jsonrpc":"2.0","id":1}''\<close>
  let ?hs = "handshake_sent new_client 7 (Some 7) (Some 7)"
  have w: \<open>toString (wire ''{"jsonrpc":"2.0","id":1}'') = ?L @ [0x0A]\<close>
    by (simp add: toString_def wire_def ascii_def utf16_units_def)
  have t: "indexOf ?L 0x0A = None" "trim ?L = ?L"
    by (simp_all add: ascii_def trim_def js_space_def)
  have hs: "?hs = new_client\<lparr>process := Some 7, stdin := Some 7, stdout := Some 7,
        nextMessageId := 2, nextPromise := 1,
        timers := [0 \<mapsto> (message_timeout_ms, initMessage 1)],
        messageQueue := [\<lparr>message = initMessage 1, promise = 0\<rparr>],
        written := [initMessage 1]\<rparr>"
    using handshake_sent_eq[of "Some 7" "Some 7" new_client 7] by (simp add: new_client_def)
  have r: "received ?hs = []" "responseBuffer ?hs = []"
    unfolding hs by (simp_all add: new_client_def)
  have h: \<open>handleResponse line_parse ?hs (wire ''{"jsonrpc":"2.0","id":1}'')
      = mcp_processMessage line_parse (?hs\<lparr>received := [?L]\<rparr>) ?L\<close>
    unfolding handleResponse_def w
    using handleText_one_line[of ?L ?hs line_parse] t r by (simp add: ascii_def)
  have p: "mcp_processMessage line_parse (?hs\<lparr>received := [?L]\<rparr>) ?L = ?hs\<lparr>received := [?L]\<rparr>"
    unfolding hs
    by (simp add: mcp_processMessage_def line_parse_def ascii_def initMessage_def respond_def)
  show ?thesis unfolding h p ..
qed

theorem connect_failure_propagates_witness:
  \<open>connect (peer_sends line_parse
               (wire ''{"jsonrpc":"2.0","id":1,"result":{"capabilities":{}}}''))
      (Inr (7, Some 7, Some 7)) new_client
     = (Rejects (JsError ''Error'' ''[MCP Client] Invalid initialization response from server''),
        handleResponse line_parse (handshake_sent new_client 7 (Some 7) (Some 7))
         (wire ''{"jsonrpc":"2.0","id":1,"result":{"capabilities":{}}}'')) \<and>
   initialized (handshake_sent new_client 7 (Some 7) (Some 7)) = False \<and>
   process (handshake_sent new_client 7 (Some 7) (Some 7)) = Some 7 \<and>
   connect (event_loop line_parse [Chunk (wire ''{"jsonrpc":"2.0","id":1}''), TimerFires 0])
      (Inr (7, Some 7, Some 7)) new_client
     = (Rejects (JsError ''Error''
                   ''[MCP Client] Message timeout after 30 seconds for message id: 1''),
        run line_parse (handshake_sent new_client 7 (Some 7) (Some 7))
          [Chunk (wire ''{"jsonrpc":"2.0","id":1}''), TimerFires 0])\<close>
proof -
  let ?A = \<open>peer_sends line_parse (wire ''{"jsonrpc":"2.0","id":1,"result":{"capabilities":{}}}'')\<close>
  let ?hs = "handshake_sent new_client 7 (Some 7) (Some 7)"
  let ?st2 = \<open>handleResponse line_parse ?hs
         (wire ''{"jsonrpc":"2.0","id":1,"result":{"capabilities":{}}}'')\<close>
  let ?L = \<open>ascii ''{"jsonrpc":"2.0","id":1}''\<close>
  let ?evs = \<open>[Chunk (wire ''{"jsonrpc":"2.0","id":1}''), TimerFires 0]\<close>
  let ?B = "event_loop line_parse ?evs"
  let ?resumed = "run line_parse ?hs ?evs"
  have o: "Some (7::nat) \<noteq> None \<and> Some (7::nat) \<noteq> None" by simp
  have n: "nextPromise new_client = 0" "initialized new_client = False"
    "nextMessageId new_client = 1"
    by (simp_all add: new_client_def)
  note c = connect_failure_propagates[where await = ?A and e = "JsError [] []"
      and st = new_client and child_stdin = "Some 7" and child_stdout = "Some 7" and child = 7
      and ?st2.0 = ?st2 and response = "Some (JObj [(''capabilities'', JObj [])])"
      and ?st4.0 = ?st2,
      THEN conjunct2, THEN conjunct2, THEN conjunct1, THEN mp, OF o]
  have h: "?A ?hs (nextPromise new_client)
         = (Some (Resolved (Some (JObj [(''capabilities'', JObj [])]))), ?st2) \<and>
       (\<forall>r v. Some (JObj [(''capabilities'', JObj [])]) = Some r \<longrightarrow>
              field r ''protocolVersion'' \<noteq> Some (JStr v))"
    by (simp add: n example_handshake)
  from c h have 1: "connect ?A (Inr (7, Some 7, Some 7)) new_client =
      (Rejects (JsError ''Error'' ''[MCP Client] Invalid initialization response from server''), ?st2)"
    by blast
  from c have 2: "initialized ?hs = initialized new_client" "process ?hs = Some 7"
    by blast+
  have f: "in_flight 0 (initMessage 1) (?hs\<lparr>received := [?L]\<rparr>)"
    using handshake_in_flight[OF fresh_ids_new_client, of "Some 7" "Some 7" 7] by (simp add: n)
  have r: "?resumed = timeout_fires (?hs\<lparr>received := [?L]\<rparr>) 0"
    by (simp add: run_Cons run_Nil unanswerable_handshake)
  have s: "show_nat (Suc 0) = ''1''" by code_simp
  have ps: "promise_state ?resumed 0 = Some (Rejected (JsError ''Error''
      ''[MCP Client] Message timeout after 30 seconds for message id: 1''))"
    unfolding r using in_flight_timeout_state(1)[OF f] s
    by (simp add: timeout_error_def initMessage_def)
  have rc: "received ?resumed = [?L]" "received ?hs = []"
    unfolding r in_flight_timeout[OF f]
    using handshake_sent_eq[of "Some 7" "Some 7" new_client 7] by (simp_all add: new_client_def)
  have g: "Some (7::nat) \<noteq> None \<and> Some (7::nat) \<noteq> None \<and>
    run_where possible line_parse new_client [] \<and> new_client = run line_parse new_client [] \<and>
    run_where (own_callback (nextPromise new_client) (initMessage (nextMessageId new_client)))
      line_parse ?hs ?evs \<and>
    ?resumed = run line_parse ?hs ?evs \<and>
    ?B ?hs (nextPromise new_client) = (promise_state ?resumed (nextPromise new_client), ?resumed) \<and>
    (\<forall>line \<in> set (drop (length (received ?hs)) (received ?resumed)).
       \<forall>r v s. line_parse line = Inr r \<and>
               strict_eq (Some (nextMessageId new_client)) (field r ''id'') \<and>
               field r ''result'' = Some v \<longrightarrow>
               field v ''protocolVersion'' \<noteq> Some (JStr s))"
    unfolding rc by (simp add: run_Nil event_loop_def line_parse_def ascii_def)
  note d = connect_failure_propagates[where await = ?B and st = new_client
      and child_stdin = "Some 7" and child_stdout = "Some 7" and child = 7
      and parse = line_parse and history = "[]" and evs = ?evs and resumed = ?resumed,
      THEN conjunct2, THEN conjunct2, THEN conjunct2, THEN mp, OF g]
  have 3: "connect ?B (Inr (7, Some 7, Some 7)) new_client =
      (Rejects (JsError ''Error''
                   ''[MCP Client] Message timeout after 30 seconds for message id: 1''), ?resumed)"
    using d ps by (simp add: n)
  show ?thesis using 1 2 3 by (simp add: n)
qed

text \<open>
  C8 as stated fails: a handshake response without \<open>protocolVersion\<close> makes \<open>connect\<close>
  fail, and the client keeps the process and stream handles and the advanced message
  id, where a new client has none.
\<close>

theorem failed_handshake_keeps_partial_state:
  \<open>fst (connect (peer_sends line_parse
                   (wire ''{"jsonrpc":"2.0","id":1,"result":{"capabilities":{}}}''))
          (Inr (7, Some 7, Some 7)) new_client)
     = Rejects (JsError ''Error'' ''[MCP Client] Invalid initialization response from server'') \<and>
   process (snd (connect (peer_sends line_parse
                   (wire ''{"jsonrpc":"2.0","id":1,"result":{"capabilities":{}}}''))
          (Inr (7, Some 7, Some 7)) new_client)) = Some 7 \<and>
   stdin (snd (connect (peer_sends line_parse
                   (wire ''{"jsonrpc":"2.0","id":1,"result":{"capabilities":{}}}''))
          (Inr (7, Some 7, Some 7)) new_client)) = Some 7 \<and>
   stdout (snd (connect (peer_sends line_parse
                   (wire ''{"jsonrpc":"2.0","id":1,"result":{"capabilities":{}}}''))
          (Inr (7, Some 7, Some 7)) new_client)) = Some 7 \<and>
   nextMessageId (snd (connect (peer_sends line_parse
                   (wire ''{"jsonrpc":"2.0","id":1,"result":{"capabilities":{}}}''))
          (Inr (7, Some 7, Some 7)) new_client)) = 2 \<and>
   process new_client = None \<and> nextMessageId new_client = 1\<close>
proof -
  have v: "\<not> valid_handshake (Some (JObj [(''capabilities'', JObj [])]))"
    by (simp add: valid_handshake_def)
  have n: "nextPromise new_client = 0" by (simp add: new_client_def)
  have c: \<open>connect (peer_sends line_parse
                   (wire ''{"jsonrpc":"2.0","id":1,"result":{"capabilities":{}}}''))
          (Inr (7, Some 7, Some 7)) new_client
     = (Rejects (JsError ''Error'' ''[MCP Client] Invalid initialization response from server''),
        handleResponse line_parse (handshake_sent new_client 7 (Some 7) (Some 7))
         (wire ''{"jsonrpc":"2.0","id":1,"result":{"capabilities":{}}}''))\<close>
    by (rule connect_handshake_invalid[where response = "Some (JObj [(''capabilities'', JObj [])])"])
       (simp_all add: n example_handshake v)
  show ?thesis
    unfolding c using example_handshake_state by (simp add: new_client_def)
qed

end
